theory Spec2Isabelle
  imports Main "HOL-Library.AList"
begin

section \<open>rdsbackup: cross-region RDS snapshot backups\<close>

text \<open>
  A shallow embedding of \<^verbatim>\<open>rdsbackup\<close> version 1.2 (the source file with
  \<^verbatim>\<open>const version = "1.2"\<close>), and of the \<^verbatim>\<open>copySnap\<close> of the older
  version 1.0 (\<^verbatim>\<open>rdsbackup.go\<close>).

  The program talks to AWS through five SDK operations. The remote side is a record of
  handlers; each handler sees the list of the requests issued before (the history), so
  its answer may change during a run. Every method of \<^verbatim>\<open>config\<close> takes the
  history and returns it extended by the requests it issued. A Go \<^verbatim>\<open>error\<close> is an
  \<open>error option\<close> (\<open>None\<close> is \<^verbatim>\<open>nil\<close>).
\<close>

subsection \<open>Data\<close>

text \<open>\<^verbatim>\<open>time.Time\<close>: seconds since the Unix epoch and the nanoseconds within the second.\<close>

record gotime =
  Unix :: int
  Nanosecond :: nat

text \<open>\<^verbatim>\<open>time.Unix(0, 0)\<close>\<close>

definition time_Unix_0_0 :: gotime where
  "time_Unix_0_0 = \<lparr>Unix = 0, Nanosecond = 0\<rparr>"

text \<open>\<^verbatim>\<open>t.After(u)\<close>\<close>

definition After :: "gotime \<Rightarrow> gotime \<Rightarrow> bool" where
  "After t u = (Unix t > Unix u \<or> (Unix t = Unix u \<and> Nanosecond t > Nanosecond u))"

record Tag =
  Key :: string
  Value :: string

record DBSnapshot =
  DBSnapshotIdentifier :: string
  SnapshotCreateTime :: gotime
  Status :: string
  PercentProgress :: int

record CopyDBSnapshotMessage =
  SourceDBSnapshotIdentifier :: string
  Tags :: "Tag list"
  TargetDBSnapshotIdentifier :: string

text \<open>
  The \<^verbatim>\<open>config\<close> struct. The field \<^verbatim>\<open>creds\<close> (the SDK's credentials provider,
  built from \<^verbatim>\<open>awsKeyId\<close> and \<^verbatim>\<open>awsSecret\<close>) is not a value of the model: the
  handlers of the remote side stand for authenticated clients.
\<close>

record config =
  dbid :: string
  src :: string
  dst :: string
  arn :: string
  copyId :: string
  awsAcctId :: string
  awsKeyId :: string
  awsSecret :: string
  purge :: int
  quiet :: bool

text \<open>
  Errors: \<open>AWSError\<close> is an \<^verbatim>\<open>err\<close> returned by an SDK call; the others are the
  \<^verbatim>\<open>fmt.Errorf\<close> sites of the program, in source order:
  "Error parsing user ARN", "No snapshots found", "No usable snapshot found",
  "Error creating snapshot - unexpected status: %s", "New snapshot missing!".
\<close>

datatype error =
    AWSError string
  | ErrorParsingUserARN
  | NoSnapshotsFound
  | NoUsableSnapshotFound
  | UnexpectedStatus string
  | NewSnapshotMissing

text \<open>
  The requests of a run. The first argument is the region the client was made for.
  \<open>DescribeDBSnapshots\<close> carries the two optional fields of its message that the
  program sets: \<^verbatim>\<open>DBInstanceIdentifier\<close> and \<^verbatim>\<open>DBSnapshotIdentifier\<close>.
\<close>

datatype request =
    GetUser string
  | DescribeDBSnapshots string "string option" "string option"
  | ListTagsForResource string string
  | CopyDBSnapshot string CopyDBSnapshotMessage
  | DeleteDBSnapshot string string

record remote =
  getUser :: "request list \<Rightarrow> string \<Rightarrow> error + string"
  describeDBSnapshots ::
    "request list \<Rightarrow> string \<Rightarrow> string option \<Rightarrow> string option \<Rightarrow> error + DBSnapshot list"
  listTagsForResource :: "request list \<Rightarrow> string \<Rightarrow> string \<Rightarrow> error + Tag list"
  copyDBSnapshot :: "request list \<Rightarrow> string \<Rightarrow> CopyDBSnapshotMessage \<Rightarrow> error + DBSnapshot"
  deleteDBSnapshot :: "request list \<Rightarrow> string \<Rightarrow> string \<Rightarrow> error + DBSnapshot"

text \<open>
  The clock: the value of \<^verbatim>\<open>time.Now()\<close> and the standard library's
  \<^verbatim>\<open>Time.Format\<close>, which the program calls with two layouts.
\<close>

record clock =
  Now :: gotime
  Format :: "gotime \<Rightarrow> string \<Rightarrow> string"

text \<open>The state of a run that has not returned yet, or the value it returned.\<close>

datatype 'a run = Running | Done 'a

subsection \<open>Library functions\<close>

text \<open>\<^verbatim>\<open>strings.Split(s, sep)\<close> for a separator of one byte.\<close>

fun strings_Split :: "string \<Rightarrow> char \<Rightarrow> string list" where
  "strings_Split [] sep = [[]]"
| "strings_Split (x # xs) sep =
     (if x = sep then [] # strings_Split xs sep
      else (case strings_Split xs sep of
              [] \<Rightarrow> [[x]]
            | p # ps \<Rightarrow> (x # p) # ps))"

text \<open>\<^verbatim>\<open>fmt.Sprintf("%d", n)\<close>\<close>

fun decimal :: "nat \<Rightarrow> string" where
  "decimal n =
     (if n < 10 then [char_of (48 + n)]
      else decimal (n div 10) @ [char_of (48 + n mod 10)])"

declare decimal.simps [simp del]

definition Sprintf_d :: "int \<Rightarrow> string" where
  "Sprintf_d i = (if i < 0 then CHR ''-'' # decimal (nat (- i)) else decimal (nat i))"

text \<open>\<^verbatim>\<open>fmt.Sprintf("arn:aws:rds:%s:%s:snapshot:%s", region, acct, id)\<close>\<close>

definition snapshotArn :: "string \<Rightarrow> string \<Rightarrow> string \<Rightarrow> string" where
  "snapshotArn region acct ident =
     ''arn:aws:rds:'' @ region @ '':'' @ acct @ '':snapshot:'' @ ident"

subsection \<open>findAcccountID\<close>

definition findAcccountID :: "remote \<Rightarrow> config \<Rightarrow> request list \<Rightarrow> request list \<times> (error + string)" where
  "findAcccountID R c tr =
     (let tr' = tr @ [GetUser (src c)] in
      case getUser R tr (src c) of
        Inl err \<Rightarrow> (tr', Inl err)
      | Inr userARN \<Rightarrow>
          (let parts = strings_Split userARN (CHR '':'') in
           if length parts \<noteq> 6 then (tr', Inl ErrorParsingUserARN)
           else (tr', Inr (parts ! 4))))"

subsection \<open>findLatestSnap\<close>

text \<open>The loop over \<^verbatim>\<open>resp.DBSnapshots\<close>; the accumulator is \<^verbatim>\<open>(newest, newestId)\<close>.\<close>

fun latestLoop :: "DBSnapshot list \<Rightarrow> gotime \<times> string \<Rightarrow> gotime \<times> string" where
  "latestLoop [] acc = acc"
| "latestLoop (r # rs) (newest, newestId) =
     (if After (SnapshotCreateTime r) newest
      then latestLoop rs (SnapshotCreateTime r, DBSnapshotIdentifier r)
      else latestLoop rs (newest, newestId))"

definition findLatestSnap ::
  "remote \<Rightarrow> config \<Rightarrow> request list \<Rightarrow> request list \<times> config \<times> error option" where
  "findLatestSnap R c tr =
     (let tr' = tr @ [DescribeDBSnapshots (src c) (Some (dbid c)) None] in
      case describeDBSnapshots R tr (src c) (Some (dbid c)) None of
        Inl err \<Rightarrow> (tr', c, Some err)
      | Inr snaps \<Rightarrow>
          if length snaps < 1 then (tr', c, Some NoSnapshotsFound)
          else
            (let (newest, newestId) = latestLoop snaps (time_Unix_0_0, []) in
             if length newestId < 1 then (tr', c, Some NoUsableSnapshotFound)
             else (tr', c\<lparr>arn := snapshotArn (src c) (awsAcctId c) newestId\<rparr>, None)))"

subsection \<open>checkSnapCopied\<close>

text \<open>The loop over \<^verbatim>\<open>tags.TagList\<close>; the accumulator is \<^verbatim>\<open>(managedByUs, matchedSource)\<close>.\<close>

fun tagLoop :: "config \<Rightarrow> Tag list \<Rightarrow> bool \<times> bool \<Rightarrow> bool \<times> bool" where
  "tagLoop c [] acc = acc"
| "tagLoop c (t # ts) (managedByUs, matchedSource) =
     (if Key t = ''managedby'' \<and> Value t = ''rdsbackup'' then tagLoop c ts (True, matchedSource)
      else if Key t = ''sourcearn'' \<and> Value t = arn c then tagLoop c ts (managedByUs, True)
      else tagLoop c ts (managedByUs, matchedSource))"

fun checkLoop :: "remote \<Rightarrow> config \<Rightarrow> request list \<Rightarrow> DBSnapshot list \<Rightarrow> request list \<times> bool" where
  "checkLoop R c tr [] = (tr, False)"
| "checkLoop R c tr (s # ss) =
     (let name = snapshotArn (dst c) (awsAcctId c) (DBSnapshotIdentifier s);
          tr' = tr @ [ListTagsForResource (dst c) name] in
      case listTagsForResource R tr (dst c) name of
        Inl err \<Rightarrow> checkLoop R c tr' ss
      | Inr tagList \<Rightarrow>
          (let (managedByUs, matchedSource) = tagLoop c tagList (False, False) in
           if managedByUs \<and> matchedSource then (tr', True)
           else checkLoop R c tr' ss))"

definition checkSnapCopied :: "remote \<Rightarrow> config \<Rightarrow> request list \<Rightarrow> request list \<times> bool" where
  "checkSnapCopied R c tr =
     (let tr' = tr @ [DescribeDBSnapshots (dst c) (Some (dbid c)) None] in
      case describeDBSnapshots R tr (dst c) (Some (dbid c)) None of
        Inl err \<Rightarrow> (tr', False)
      | Inr snaps \<Rightarrow> checkLoop R c tr' snaps)"

subsection \<open>copySnap\<close>

definition copyMessage :: "clock \<Rightarrow> config \<Rightarrow> CopyDBSnapshotMessage" where
  "copyMessage clk c =
     (let t = Now clk in
      \<lparr>SourceDBSnapshotIdentifier = arn c,
       Tags =
         [\<lparr>Key = ''time'', Value = Format clk t ''2006-01-02 15:04:05 -0700''\<rparr>,
          \<lparr>Key = ''timestamp'', Value = Sprintf_d (Unix t)\<rparr>,
          \<lparr>Key = ''source'', Value = src c\<rparr>,
          \<lparr>Key = ''sourceid'', Value = dbid c\<rparr>,
          \<lparr>Key = ''sourcearn'', Value = arn c\<rparr>,
          \<lparr>Key = ''managedby'', Value = ''rdsbackup''\<rparr>],
       TargetDBSnapshotIdentifier = dbid c @ ''-'' @ Format clk t ''2006-01-02at15-04MST''\<rparr>)"

definition copySnap ::
  "remote \<Rightarrow> clock \<Rightarrow> config \<Rightarrow> request list \<Rightarrow> request list \<times> config \<times> error option" where
  "copySnap R clk c tr =
     (let m = copyMessage clk c;
          c' = c\<lparr>copyId := TargetDBSnapshotIdentifier m\<rparr>;
          tr' = tr @ [CopyDBSnapshot (dst c) m] in
      case copyDBSnapshot R tr (dst c) m of
        Inl err \<Rightarrow> (tr', c', Some err)
      | Inr snap \<Rightarrow>
          if Status snap \<noteq> ''creating'' then (tr', c', Some (UnexpectedStatus (Status snap)))
          else (tr', c', None))"

text \<open>The \<^verbatim>\<open>copySnap\<close> of version 1.0 (\<^verbatim>\<open>rdsbackup.go\<close>): the same but for the tags.\<close>

definition copyMessage_v1_0 :: "clock \<Rightarrow> config \<Rightarrow> CopyDBSnapshotMessage" where
  "copyMessage_v1_0 clk c =
     (let t = Now clk in
      \<lparr>SourceDBSnapshotIdentifier = arn c,
       Tags =
         [\<lparr>Key = ''time'', Value = Format clk t ''2006-01-02 15:04:05 -0700''\<rparr>,
          \<lparr>Key = ''timestamp'', Value = Sprintf_d (Unix t)\<rparr>,
          \<lparr>Key = ''source'', Value = src c\<rparr>,
          \<lparr>Key = ''sourceid'', Value = dbid c\<rparr>,
          \<lparr>Key = ''managedby'', Value = ''rdsbackup''\<rparr>],
       TargetDBSnapshotIdentifier = dbid c @ ''-'' @ Format clk t ''2006-01-02at15-04MST''\<rparr>)"

definition copySnap_v1_0 ::
  "remote \<Rightarrow> clock \<Rightarrow> config \<Rightarrow> request list \<Rightarrow> request list \<times> config \<times> error option" where
  "copySnap_v1_0 R clk c tr =
     (let m = copyMessage_v1_0 clk c;
          c' = c\<lparr>copyId := TargetDBSnapshotIdentifier m\<rparr>;
          tr' = tr @ [CopyDBSnapshot (dst c) m] in
      case copyDBSnapshot R tr (dst c) m of
        Inl err \<Rightarrow> (tr', c', Some err)
      | Inr snap \<Rightarrow>
          if Status snap \<noteq> ''creating'' then (tr', c', Some (UnexpectedStatus (Status snap)))
          else (tr', c', None))"

subsection \<open>waitForCopy\<close>

text \<open>
  The loop has no bound in the source. The first argument bounds the number of polls
  the model follows: with none left the run is still \<open>Running\<close>. The sleep between
  two polls is not modelled.
\<close>

fun waitForCopy ::
  "nat \<Rightarrow> remote \<Rightarrow> config \<Rightarrow> request list \<Rightarrow> request list \<times> error option run" where
  "waitForCopy 0 R c tr = (tr, Running)"
| "waitForCopy (Suc fuel) R c tr =
     (let tr' = tr @ [DescribeDBSnapshots (dst c) None (Some (copyId c))] in
      case describeDBSnapshots R tr (dst c) None (Some (copyId c)) of
        Inl err \<Rightarrow> (tr', Done (Some err))
      | Inr snaps \<Rightarrow>
          if length snaps \<noteq> 1 then (tr', Done (Some NewSnapshotMissing))
          else if Status (snaps ! 0) \<noteq> ''creating'' then (tr', Done None)
          else waitForCopy fuel R c tr')"

subsection \<open>cleanupSnaps\<close>

text \<open>
  \<^verbatim>\<open>snaps\<close> is a Go map from \<^verbatim>\<open>int64\<close> to \<^verbatim>\<open>string\<close>: an association list
  with one entry per key, so that \<^verbatim>\<open>len(snaps)\<close> is its length. Reading a key that
  is absent gives the empty string.
\<close>

definition mapIndex :: "(int \<times> string) list \<Rightarrow> int \<Rightarrow> string" where
  "mapIndex snaps k = (case map_of snaps k of None \<Rightarrow> [] | Some v \<Rightarrow> v)"

text \<open>The inner loop over \<^verbatim>\<open>tags.TagList\<close>; the accumulator is \<^verbatim>\<open>(snaps, keys)\<close>.\<close>

fun managedLoop ::
  "DBSnapshot \<Rightarrow> Tag list \<Rightarrow> (int \<times> string) list \<times> int list \<Rightarrow> (int \<times> string) list \<times> int list" where
  "managedLoop s [] acc = acc"
| "managedLoop s (t # ts) (snaps, keys) =
     (if Key t = ''managedby'' \<and> Value t = ''rdsbackup'' then
        (if Unix (SnapshotCreateTime s) > 0 then
           managedLoop s ts
             (AList.update (Unix (SnapshotCreateTime s)) (DBSnapshotIdentifier s) snaps,
              keys @ [Unix (SnapshotCreateTime s)])
         else managedLoop s ts (snaps, keys))
      else managedLoop s ts (snaps, keys))"

text \<open>The outer loop over \<^verbatim>\<open>resp.DBSnapshots\<close>.\<close>

fun collectLoop ::
  "remote \<Rightarrow> config \<Rightarrow> request list \<Rightarrow> DBSnapshot list \<Rightarrow> (int \<times> string) list \<times> int list \<Rightarrow>
   request list \<times> (int \<times> string) list \<times> int list" where
  "collectLoop R c tr [] acc = (tr, acc)"
| "collectLoop R c tr (s # ss) acc =
     (let name = snapshotArn (dst c) (awsAcctId c) (DBSnapshotIdentifier s);
          tr' = tr @ [ListTagsForResource (dst c) name] in
      case listTagsForResource R tr (dst c) name of
        Inl err \<Rightarrow> collectLoop R c tr' ss acc
      | Inr tagList \<Rightarrow> collectLoop R c tr' ss (managedLoop s tagList acc))"

text \<open>
  The purge loop, over the identifiers \<^verbatim>\<open>snaps[keys[i]]\<close> for
  \<^verbatim>\<open>i < len(snaps)-c.purge\<close>. A status other than "deleted" is only logged.
\<close>

fun purgeLoop :: "remote \<Rightarrow> config \<Rightarrow> request list \<Rightarrow> string list \<Rightarrow> request list \<times> error option" where
  "purgeLoop R c tr [] = (tr, None)"
| "purgeLoop R c tr (ident # idents) =
     (let tr' = tr @ [DeleteDBSnapshot (dst c) ident] in
      case deleteDBSnapshot R tr (dst c) ident of
        Inl err \<Rightarrow> (tr', Some err)
      | Inr snap \<Rightarrow> purgeLoop R c tr' idents)"

text \<open>
  Every key appended to \<^verbatim>\<open>keys\<close> is a key of \<^verbatim>\<open>snaps\<close>, so \<^verbatim>\<open>keys\<close> is
  at least as long as \<^verbatim>\<open>snaps\<close> and \<^verbatim>\<open>keys[i]\<close> is in range for every
  \<^verbatim>\<open>i < len(snaps)-c.purge\<close> (lemma \<open>collectLoop_length\<close>): the identifiers to purge
  are those of the first \<^verbatim>\<open>len(snaps)-c.purge\<close> sorted keys.
\<close>

definition cleanupSnaps :: "remote \<Rightarrow> config \<Rightarrow> request list \<Rightarrow> request list \<times> error option" where
  "cleanupSnaps R c tr =
     (if purge c \<le> 0 then (tr, None)
      else
        (let tr' = tr @ [DescribeDBSnapshots (dst c) (Some (dbid c)) None] in
         case describeDBSnapshots R tr (dst c) (Some (dbid c)) None of
           Inl err \<Rightarrow> (tr', Some err)
         | Inr resp \<Rightarrow>
             (let (tr'', snaps, keys) = collectLoop R c tr' resp ([], []) in
              if int (length snaps) \<le> purge c then (tr'', None)
              else
                purgeLoop R c tr''
                  (map (mapIndex snaps) (take (nat (int (length snaps) - purge c)) (sort keys))))))"

subsection \<open>main\<close>

text \<open>
  \<^verbatim>\<open>main\<close> after \<^verbatim>\<open>parseArgs\<close>, whose result is the argument \<open>(c, perr)\<close>.
  The result is the list of the requests issued and the exit status:
  \<^verbatim>\<open>log.Fatal\<close> exits with status 1.
\<close>

definition main :: "nat \<Rightarrow> remote \<Rightarrow> clock \<Rightarrow> config \<times> error option \<Rightarrow> request list \<times> int run" where
  "main fuel R clk parsed =
     (case parsed of
        (c, Some err) \<Rightarrow> ([], Done 1)
      | (c, None) \<Rightarrow>
     (case findAcccountID R c [] of
        (tr1, Inl err) \<Rightarrow> (tr1, Done 1)
      | (tr1, Inr acct) \<Rightarrow>
     (case findLatestSnap R (c\<lparr>awsAcctId := acct\<rparr>) tr1 of
        (tr2, c2, Some err) \<Rightarrow> (tr2, Done 1)
      | (tr2, c2, None) \<Rightarrow>
     (case checkSnapCopied R c2 tr2 of
        (tr3, True) \<Rightarrow> (tr3, Done 0)
      | (tr3, False) \<Rightarrow>
     (case copySnap R clk c2 tr3 of
        (tr4, c3, Some err) \<Rightarrow> (tr4, Done 1)
      | (tr4, c3, None) \<Rightarrow>
     (case waitForCopy fuel R c3 tr4 of
        (tr5, Running) \<Rightarrow> (tr5, Running)
      | (tr5, Done (Some err)) \<Rightarrow> (tr5, Done 1)
      | (tr5, Done None) \<Rightarrow>
     (case cleanupSnaps R c3 tr5 of
        (tr6, Some err) \<Rightarrow> (tr6, Done 1)
      | (tr6, None) \<Rightarrow> (tr6, Done 0))))))))"

section \<open>Notions used to state the properties\<close>

text \<open>
  \<^verbatim>\<open>strings.Join(parts, sep)\<close> for a separator of one byte: the fields of a string
  are the pieces without the separator that join to it.
\<close>

fun strings_Join :: "string list \<Rightarrow> char \<Rightarrow> string" where
  "strings_Join [] sep = []"
| "strings_Join [p] sep = p"
| "strings_Join (p # q # ps) sep = p @ sep # strings_Join (q # ps) sep"

text \<open>
  The spec's error taxonomy calls both "No snapshots found" and "No usable snapshot
  found" \<open>NotFound\<close>.
\<close>

definition NotFound :: "error \<Rightarrow> bool" where
  "NotFound e = (e = NoSnapshotsFound \<or> e = NoUsableSnapshotFound)"

text \<open>Kinds of requests in a trace. A poll is a listing by snapshot identifier.\<close>

fun isListTags :: "request \<Rightarrow> bool" where
  "isListTags (ListTagsForResource region name) = True"
| "isListTags _ = False"

fun isCopy :: "request \<Rightarrow> bool" where
  "isCopy (CopyDBSnapshot region m) = True"
| "isCopy _ = False"

fun isDelete :: "request \<Rightarrow> bool" where
  "isDelete (DeleteDBSnapshot region ident) = True"
| "isDelete _ = False"

fun isPoll :: "request \<Rightarrow> bool" where
  "isPoll (DescribeDBSnapshots region None (Some ident)) = True"
| "isPoll _ = False"

text \<open>A poll's answer that keeps the wait going: one snapshot, in status "creating".\<close>

fun creating :: "error + DBSnapshot list \<Rightarrow> bool" where
  "creating (Inr [s]) = (Status s = ''creating'')"
| "creating _ = False"

text \<open>The remote side answers request \<open>q\<close>, issued after the requests \<open>h\<close>, with an error.\<close>

fun failed :: "remote \<Rightarrow> request list \<Rightarrow> request \<Rightarrow> bool" where
  "failed R h (GetUser region) = isl (getUser R h region)"
| "failed R h (DescribeDBSnapshots region inst ident) = isl (describeDBSnapshots R h region inst ident)"
| "failed R h (ListTagsForResource region name) = isl (listTagsForResource R h region name)"
| "failed R h (CopyDBSnapshot region m) = isl (copyDBSnapshot R h region m)"
| "failed R h (DeleteDBSnapshot region ident) = isl (deleteDBSnapshot R h region ident)"

text \<open>The tag that marks a snapshot as made by this tool.\<close>

definition managedby :: Tag where
  "managedby = \<lparr>Key = ''managedby'', Value = ''rdsbackup''\<rparr>"

text \<open>
  A managed snapshot (the spec's glossary): the tags read for it hold the marker. The
  tags are \<open>tagsOf\<close> of the snapshot's reference in the destination region.
\<close>

definition isManaged :: "(string \<Rightarrow> error + Tag list) \<Rightarrow> config \<Rightarrow> string \<Rightarrow> bool" where
  "isManaged tagsOf c ident =
     (case tagsOf (snapshotArn (dst c) (awsAcctId c) ident) of
        Inl err \<Rightarrow> False
      | Inr ts \<Rightarrow> managedby \<in> set ts)"

text \<open>The managed snapshots of a listing that the retention pass counts.\<close>

definition counted :: "(string \<Rightarrow> error + Tag list) \<Rightarrow> config \<Rightarrow> DBSnapshot list \<Rightarrow> DBSnapshot list" where
  "counted tagsOf c resp =
     filter (\<lambda>s. isManaged tagsOf c (DBSnapshotIdentifier s) \<and> 0 < Unix (SnapshotCreateTime s)) resp"

text \<open>
  No request of \<open>xs\<close>, issued after the requests \<open>h\<close>, failed, apart from the
  failures that \<open>E\<close> tolerates.
\<close>

fun clean :: "remote \<Rightarrow> (request list \<Rightarrow> request \<Rightarrow> bool) \<Rightarrow> request list \<Rightarrow> request list \<Rightarrow> bool" where
  "clean R E h [] = True"
| "clean R E h (q # rest) = ((\<not> failed R h q \<or> E h q) \<and> clean R E (h @ [q]) rest)"

text \<open>
  The failures a run survives: a tag read, and the third request of a run, which is the
  destination listing of the idempotency check.
\<close>

definition tolerated :: "request list \<Rightarrow> request \<Rightarrow> bool" where
  "tolerated h q = (isListTags q \<or> length h = 2)"

section \<open>Example runs\<close>

definition ex_config :: config where
  "ex_config =
     \<lparr>dbid = ''db'', src = ''east'', dst = ''west'', arn = [], copyId = [], awsAcctId = [],
      awsKeyId = ''K'', awsSecret = ''S'', purge = 1, quiet = True\<rparr>"

definition ex_snap :: "string \<Rightarrow> int \<Rightarrow> string \<Rightarrow> DBSnapshot" where
  "ex_snap ident t st =
     \<lparr>DBSnapshotIdentifier = ident, SnapshotCreateTime = \<lparr>Unix = t, Nanosecond = 0\<rparr>,
      Status = st, PercentProgress = 0\<rparr>"

text \<open>A remote side whose every answer is fixed; the examples override single handlers.\<close>

definition ex_remote :: remote where
  "ex_remote =
     \<lparr>getUser = (\<lambda>h region. Inr ''arn:aws:iam::42:user/bob''),
      describeDBSnapshots = (\<lambda>h region inst ident. Inr []),
      listTagsForResource = (\<lambda>h region name. Inr []),
      copyDBSnapshot = (\<lambda>h region m. Inr (ex_snap (TargetDBSnapshotIdentifier m) 0 ''creating'')),
      deleteDBSnapshot = (\<lambda>h region ident. Inr (ex_snap ident 0 ''deleted''))\<rparr>"

definition ex_source :: "DBSnapshot list" where
  "ex_source = [ex_snap ''s1'' 10 ''available'', ex_snap ''s2'' 30 ''available'',
     ex_snap ''s3'' 20 ''available'']"

definition ex_clock :: clock where
  "ex_clock = \<lparr>Now = \<lparr>Unix = 100, Nanosecond = 0\<rparr>, Format = (\<lambda>t layout. ''T'')\<rparr>"

text \<open>
  A remote side for a whole run: three source snapshots, four destination snapshots of
  which \<open>c1\<close>, \<open>c2\<close> and \<open>c3\<close> carry the marker tag, and a copy that is in
  status "creating" for two polls. The \<open>sourcearn\<close> tag of \<open>c3\<close> is the
  parameter \<open>copied\<close>.
\<close>

definition ex_dest :: "DBSnapshot list" where
  "ex_dest = [ex_snap ''c2'' 15 ''available'', ex_snap ''u1'' 1 ''available'',
     ex_snap ''c1'' 5 ''available'', ex_snap ''c3'' 25 ''available'']"

definition ex_tags :: "string \<Rightarrow> string \<Rightarrow> error + Tag list" where
  "ex_tags copied name =
     (if name = ''arn:aws:rds:west:42:snapshot:c1''
        then Inr [managedby, \<lparr>Key = ''sourcearn'', Value = ''arn:aws:rds:east:42:snapshot:s1''\<rparr>]
      else if name = ''arn:aws:rds:west:42:snapshot:c2''
        then Inr [\<lparr>Key = ''sourcearn'', Value = ''arn:aws:rds:east:42:snapshot:s3''\<rparr>, managedby]
      else if name = ''arn:aws:rds:west:42:snapshot:c3''
        then Inr [managedby, \<lparr>Key = ''sourcearn'', Value = copied\<rparr>]
      else if name = ''arn:aws:rds:west:42:snapshot:u1''
        then Inr [\<lparr>Key = ''sourcearn'', Value = ''arn:aws:rds:east:42:snapshot:s2''\<rparr>]
      else Inl (AWSError ''not found''))"

definition ex_world :: "string \<Rightarrow> remote" where
  "ex_world copied =
     ex_remote
       \<lparr>describeDBSnapshots := (\<lambda>h region inst ident.
          case ident of
            Some i \<Rightarrow>
              if length (filter isPoll h) < 2 then Inr [ex_snap i 0 ''creating'']
              else Inr [ex_snap i 100 ''failed'']
          | None \<Rightarrow> if region = ''east'' then Inr ex_source else Inr ex_dest),
        listTagsForResource := (\<lambda>h region name. ex_tags copied name)\<rparr>"

section \<open>Account resolution\<close>

lemma strings_Split_not_Nil: "strings_Split s sep \<noteq> []"
  by (induction s) (auto split: list.splits)

lemma strings_Split_length: "length (strings_Split s sep) = Suc (count_list s sep)"
  by (induction s) (auto split: list.splits simp: strings_Split_not_Nil)

lemma strings_Split_fields: "p \<in> set (strings_Split s sep) \<Longrightarrow> sep \<notin> set p"
  by (induction s arbitrary: p) (auto split: list.splits if_splits)

lemma strings_Join_Cons: "ps \<noteq> [] \<Longrightarrow> strings_Join (p # ps) sep = p @ sep # strings_Join ps sep"
  by (cases ps) auto

lemma strings_Join_Split: "strings_Join (strings_Split s sep) sep = s"
proof (induction s)
  case Nil
  then show ?case by simp
next
  case (Cons x xs)
  show ?case
  proof (cases "x = sep")
    case True
    then show ?thesis using Cons by (simp add: strings_Join_Cons strings_Split_not_Nil)
  next
    case False
    obtain p ps where sp: "strings_Split xs sep = p # ps"
      using strings_Split_not_Nil [of xs sep] by (cases "strings_Split xs sep") auto
    show ?thesis using False Cons sp by (cases ps) auto
  qed
qed

lemma strings_Split_Join:
  "ps \<noteq> [] \<Longrightarrow> \<forall>p\<in>set ps. sep \<notin> set p \<Longrightarrow> strings_Split (strings_Join ps sep) sep = ps"
proof (induction ps sep rule: strings_Join.induct)
  case (1 sep)
  then show ?case by simp
next
  case (2 p sep)
  then show ?case by (induction p) auto
next
  case (3 p q ps sep)
  then show ?case by (induction p) auto
qed

text \<open>
  C10. \<^verbatim>\<open>findAcccountID\<close> splits the user ARN on colons: the ARN always has a list
  of colon-free fields joining to it, and for that list the call returns the fifth field
  when there are exactly six fields and "Error parsing user ARN" otherwise.
\<close>

theorem findAcccountID_fields:
  assumes "getUser R tr (src c) = Inr userARN"
  shows "(\<exists>fields. fields \<noteq> [] \<and> (\<forall>f\<in>set fields. CHR '':'' \<notin> set f) \<and>
            strings_Join fields (CHR '':'') = userARN) \<and>
         (\<forall>fields. fields \<noteq> [] \<and> (\<forall>f\<in>set fields. CHR '':'' \<notin> set f) \<and>
            strings_Join fields (CHR '':'') = userARN \<longrightarrow>
            findAcccountID R c tr =
              (tr @ [GetUser (src c)],
               if length fields = 6 then Inr (fields ! 4) else Inl ErrorParsingUserARN))"
proof (intro conjI allI impI)
  show "\<exists>fields. fields \<noteq> [] \<and> (\<forall>f\<in>set fields. CHR '':'' \<notin> set f) \<and>
          strings_Join fields (CHR '':'') = userARN"
    using strings_Split_not_Nil strings_Split_fields strings_Join_Split by blast
next
  fix fields
  assume f: "fields \<noteq> [] \<and> (\<forall>f\<in>set fields. CHR '':'' \<notin> set f) \<and>
    strings_Join fields (CHR '':'') = userARN"
  then have "strings_Split userARN (CHR '':'') = fields"
    using strings_Split_Join [of fields "CHR '':''"] by auto
  then show "findAcccountID R c tr =
      (tr @ [GetUser (src c)],
       if length fields = 6 then Inr (fields ! 4) else Inl ErrorParsingUserARN)"
    using assms by (simp add: findAcccountID_def)
qed

theorem findAcccountID_fields_witness:
  "getUser ex_remote [] (src ex_config) = Inr ''arn:aws:iam::42:user/bob'' \<and>
   strings_Join [''arn'', ''aws'', ''iam'', [], ''42'', ''user/bob''] (CHR '':'') =
     ''arn:aws:iam::42:user/bob'' \<and>
   findAcccountID ex_remote ex_config [] = ([GetUser ''east''], Inr ''42'')"
proof -
  have g: "getUser ex_remote [] (src ex_config) = Inr ''arn:aws:iam::42:user/bob''"
    by (simp add: ex_remote_def)
  have j: "strings_Join [''arn'', ''aws'', ''iam'', [], ''42'', ''user/bob''] (CHR '':'') =
      ''arn:aws:iam::42:user/bob''"
    by simp
  show ?thesis
    using findAcccountID_fields [OF g, THEN conjunct2, rule_format,
        of "[''arn'', ''aws'', ''iam'', [], ''42'', ''user/bob'']"] g j
    by (simp add: ex_config_def)
qed

section \<open>The Snapshot Locator\<close>

lemma After_trans: "After a b \<Longrightarrow> After b c \<Longrightarrow> After a c"
  by (auto simp: After_def)

lemma After_not_After: "After a b \<Longrightarrow> \<not> After c b \<Longrightarrow> After a c"
  by (auto simp: After_def)

text \<open>
  The scan either keeps its start value, and then no snapshot is after the start time,
  or it ends on a snapshot \<open>s\<close> that is after the start time, after every earlier
  snapshot and not before any later one: the first snapshot of the greatest time.
\<close>

lemma latestLoop_cases:
  "latestLoop rs (t0, i0) = (t0, i0) \<and> (\<forall>r\<in>set rs. \<not> After (SnapshotCreateTime r) t0) \<or>
   (\<exists>pre s post. rs = pre @ s # post \<and>
      latestLoop rs (t0, i0) = (SnapshotCreateTime s, DBSnapshotIdentifier s) \<and>
      After (SnapshotCreateTime s) t0 \<and>
      (\<forall>p\<in>set pre. After (SnapshotCreateTime s) (SnapshotCreateTime p)) \<and>
      (\<forall>q\<in>set post. \<not> After (SnapshotCreateTime q) (SnapshotCreateTime s)))"
proof (induction rs arbitrary: t0 i0)
  case Nil
  then show ?case by simp
next
  case (Cons r rs)
  show ?case
  proof (cases "After (SnapshotCreateTime r) t0")
    case True
    from Cons.IH [of "SnapshotCreateTime r" "DBSnapshotIdentifier r"]
    show ?thesis
    proof (elim disjE exE conjE)
      assume "latestLoop rs (SnapshotCreateTime r, DBSnapshotIdentifier r) =
          (SnapshotCreateTime r, DBSnapshotIdentifier r)"
        and "\<forall>q\<in>set rs. \<not> After (SnapshotCreateTime q) (SnapshotCreateTime r)"
      then have "r # rs = [] @ r # rs \<and>
          latestLoop (r # rs) (t0, i0) = (SnapshotCreateTime r, DBSnapshotIdentifier r) \<and>
          After (SnapshotCreateTime r) t0 \<and>
          (\<forall>p\<in>set []. After (SnapshotCreateTime r) (SnapshotCreateTime p)) \<and>
          (\<forall>q\<in>set rs. \<not> After (SnapshotCreateTime q) (SnapshotCreateTime r))"
        using True by simp
      then show ?thesis by blast
    next
      fix pre s post
      assume a: "rs = pre @ s # post"
        "latestLoop rs (SnapshotCreateTime r, DBSnapshotIdentifier r) =
          (SnapshotCreateTime s, DBSnapshotIdentifier s)"
        "After (SnapshotCreateTime s) (SnapshotCreateTime r)"
        "\<forall>p\<in>set pre. After (SnapshotCreateTime s) (SnapshotCreateTime p)"
        "\<forall>q\<in>set post. \<not> After (SnapshotCreateTime q) (SnapshotCreateTime s)"
      have "r # rs = (r # pre) @ s # post \<and>
          latestLoop (r # rs) (t0, i0) = (SnapshotCreateTime s, DBSnapshotIdentifier s) \<and>
          After (SnapshotCreateTime s) t0 \<and>
          (\<forall>p\<in>set (r # pre). After (SnapshotCreateTime s) (SnapshotCreateTime p)) \<and>
          (\<forall>q\<in>set post. \<not> After (SnapshotCreateTime q) (SnapshotCreateTime s))"
        using a True After_trans [OF a(3) True] by simp
      then show ?thesis by blast
    qed
  next
    case False
    from Cons.IH [of t0 i0]
    show ?thesis
    proof (elim disjE exE conjE)
      assume "latestLoop rs (t0, i0) = (t0, i0)"
        and "\<forall>q\<in>set rs. \<not> After (SnapshotCreateTime q) t0"
      then show ?thesis using False by simp
    next
      fix pre s post
      assume a: "rs = pre @ s # post"
        "latestLoop rs (t0, i0) = (SnapshotCreateTime s, DBSnapshotIdentifier s)"
        "After (SnapshotCreateTime s) t0"
        "\<forall>p\<in>set pre. After (SnapshotCreateTime s) (SnapshotCreateTime p)"
        "\<forall>q\<in>set post. \<not> After (SnapshotCreateTime q) (SnapshotCreateTime s)"
      have "r # rs = (r # pre) @ s # post \<and>
          latestLoop (r # rs) (t0, i0) = (SnapshotCreateTime s, DBSnapshotIdentifier s) \<and>
          After (SnapshotCreateTime s) t0 \<and>
          (\<forall>p\<in>set (r # pre). After (SnapshotCreateTime s) (SnapshotCreateTime p)) \<and>
          (\<forall>q\<in>set post. \<not> After (SnapshotCreateTime q) (SnapshotCreateTime s))"
        using a False After_not_After [OF a(3) False] by simp
      then show ?thesis by blast
    qed
  qed
qed

text \<open>
  C4 (amended). When the listing has a snapshot created after the Unix epoch,
  \<^verbatim>\<open>findLatestSnap\<close> selects the snapshot \<open>s\<close> of the greatest creation time,
  the first such in the listing (every earlier one is strictly older, no later one is
  newer). When the identifier of \<open>s\<close> is not empty, \<^verbatim>\<open>c.arn\<close> becomes the
  reference composed of the source region, the account identifier and that identifier;
  when it is empty the call fails with "No usable snapshot found".
\<close>

theorem findLatestSnap_selects_newest:
  assumes "describeDBSnapshots R tr (src c) (Some (dbid c)) None = Inr snaps"
    and "\<exists>s\<in>set snaps. After (SnapshotCreateTime s) time_Unix_0_0"
  shows "\<exists>pre s post. snaps = pre @ s # post \<and>
           (\<forall>p\<in>set pre. After (SnapshotCreateTime s) (SnapshotCreateTime p)) \<and>
           (\<forall>q\<in>set post. \<not> After (SnapshotCreateTime q) (SnapshotCreateTime s)) \<and>
           findLatestSnap R c tr =
             (tr @ [DescribeDBSnapshots (src c) (Some (dbid c)) None],
              if DBSnapshotIdentifier s = [] then (c, Some NoUsableSnapshotFound)
              else (c\<lparr>arn := snapshotArn (src c) (awsAcctId c) (DBSnapshotIdentifier s)\<rparr>, None))"
proof -
  from latestLoop_cases [of snaps time_Unix_0_0 "[]"] assms(2)
  obtain pre s post where sel: "snaps = pre @ s # post"
    "latestLoop snaps (time_Unix_0_0, []) = (SnapshotCreateTime s, DBSnapshotIdentifier s)"
    "\<forall>p\<in>set pre. After (SnapshotCreateTime s) (SnapshotCreateTime p)"
    "\<forall>q\<in>set post. \<not> After (SnapshotCreateTime q) (SnapshotCreateTime s)"
    by blast
  have "findLatestSnap R c tr =
      (tr @ [DescribeDBSnapshots (src c) (Some (dbid c)) None],
       if DBSnapshotIdentifier s = [] then (c, Some NoUsableSnapshotFound)
       else (c\<lparr>arn := snapshotArn (src c) (awsAcctId c) (DBSnapshotIdentifier s)\<rparr>, None))"
    using assms(1) sel(1,2) by (simp add: findLatestSnap_def)
  with sel show ?thesis by blast
qed

theorem findLatestSnap_selects_newest_witness:
  "describeDBSnapshots (ex_remote\<lparr>describeDBSnapshots := \<lambda>h region inst ident. Inr ex_source\<rparr>) []
     (src (ex_config\<lparr>awsAcctId := ''42''\<rparr>)) (Some (dbid (ex_config\<lparr>awsAcctId := ''42''\<rparr>))) None = Inr ex_source \<and>
   After (SnapshotCreateTime (ex_snap ''s2'' 30 ''available'')) time_Unix_0_0 \<and>
   ex_snap ''s2'' 30 ''available'' \<in> set ex_source \<and>
   findLatestSnap (ex_remote\<lparr>describeDBSnapshots := \<lambda>h region inst ident. Inr ex_source\<rparr>)
     (ex_config\<lparr>awsAcctId := ''42''\<rparr>) [] =
     ([DescribeDBSnapshots ''east'' (Some ''db'') None],
      ex_config\<lparr>awsAcctId := ''42'', arn := ''arn:aws:rds:east:42:snapshot:s2''\<rparr>, None)"
proof -
  let ?R = "ex_remote\<lparr>describeDBSnapshots := \<lambda>h region inst ident. Inr ex_source\<rparr>"
  let ?c = "ex_config\<lparr>awsAcctId := ''42''\<rparr>"
  have l: "describeDBSnapshots ?R [] (src ?c) (Some (dbid ?c)) None = Inr ex_source"
    by simp
  have a: "After (SnapshotCreateTime (ex_snap ''s2'' 30 ''available'')) time_Unix_0_0"
    by (simp add: After_def ex_snap_def time_Unix_0_0_def)
  have m: "ex_snap ''s2'' 30 ''available'' \<in> set ex_source"
    by (simp add: ex_source_def)
  have e: "\<exists>s\<in>set ex_source. After (SnapshotCreateTime s) time_Unix_0_0"
    using a m by blast
  show ?thesis
    using findLatestSnap_selects_newest [OF l e] l a m
    by (simp add: findLatestSnap_def ex_source_def ex_snap_def ex_config_def snapshotArn_def
        After_def time_Unix_0_0_def)
qed

text \<open>
  C4 as stated fails on a listing of one snapshot created at the epoch itself: the scan
  starts from \<^verbatim>\<open>time.Unix(0, 0)\<close> and selects only what is strictly after it, so
  nothing is selected and \<^verbatim>\<open>c.arn\<close> stays as it was.
\<close>

theorem findLatestSnap_epoch_counterexample:
  "describeDBSnapshots
     (ex_remote\<lparr>describeDBSnapshots := \<lambda>h region inst ident. Inr [ex_snap ''s1'' 0 ''available'']\<rparr>) []
     (src ex_config) (Some (dbid ex_config)) None = Inr [ex_snap ''s1'' 0 ''available''] \<and>
   findLatestSnap
     (ex_remote\<lparr>describeDBSnapshots := \<lambda>h region inst ident. Inr [ex_snap ''s1'' 0 ''available'']\<rparr>)
     ex_config [] =
     ([DescribeDBSnapshots ''east'' (Some ''db'') None], ex_config, Some NoUsableSnapshotFound)"
  by (simp add: findLatestSnap_def ex_snap_def ex_config_def After_def time_Unix_0_0_def)

lemma split_twice:
  assumes "pre @ s # post = pre' @ s' # post'"
  shows "(pre = pre' \<and> s = s') \<or> (s \<in> set pre' \<and> s' \<in> set post) \<or> (s' \<in> set pre \<and> s \<in> set post')"
  using assms by (auto simp: append_eq_append_conv2 append_eq_Cons_conv Cons_eq_append_conv)

text \<open>
  C9. Given a listing, \<^verbatim>\<open>findLatestSnap\<close> fails with a \<open>NotFound\<close> error in
  two cases and succeeds in every other: the listing is empty ("No snapshots found"), or
  the scan of a non-empty listing ends with an empty \<^verbatim>\<open>newestId\<close> ("No usable
  snapshot found"). The second case is: no snapshot is after the epoch, or the first
  snapshot of the greatest creation time has an empty identifier.
\<close>

theorem findLatestSnap_NotFound:
  assumes "describeDBSnapshots R tr (src c) (Some (dbid c)) None = Inr snaps"
  shows "findLatestSnap R c tr =
           (tr @ [DescribeDBSnapshots (src c) (Some (dbid c)) None],
            if snaps = [] then (c, Some NoSnapshotsFound)
            else if snd (latestLoop snaps (time_Unix_0_0, [])) = []
              then (c, Some NoUsableSnapshotFound)
            else (c\<lparr>arn := snapshotArn (src c) (awsAcctId c)
                     (snd (latestLoop snaps (time_Unix_0_0, [])))\<rparr>, None)) \<and>
         ((\<exists>e. snd (snd (findLatestSnap R c tr)) = Some e \<and> NotFound e) \<longleftrightarrow>
            snaps = [] \<or> snd (latestLoop snaps (time_Unix_0_0, [])) = []) \<and>
         (snd (latestLoop snaps (time_Unix_0_0, [])) = [] \<longleftrightarrow>
            (\<forall>s\<in>set snaps. \<not> After (SnapshotCreateTime s) time_Unix_0_0) \<or>
            (\<exists>pre s post. snaps = pre @ s # post \<and> DBSnapshotIdentifier s = [] \<and>
               After (SnapshotCreateTime s) time_Unix_0_0 \<and>
               (\<forall>p\<in>set pre. After (SnapshotCreateTime s) (SnapshotCreateTime p)) \<and>
               (\<forall>q\<in>set post. \<not> After (SnapshotCreateTime q) (SnapshotCreateTime s))))"
proof (intro conjI)
  show r: "findLatestSnap R c tr =
           (tr @ [DescribeDBSnapshots (src c) (Some (dbid c)) None],
            if snaps = [] then (c, Some NoSnapshotsFound)
            else if snd (latestLoop snaps (time_Unix_0_0, [])) = []
              then (c, Some NoUsableSnapshotFound)
            else (c\<lparr>arn := snapshotArn (src c) (awsAcctId c)
                     (snd (latestLoop snaps (time_Unix_0_0, [])))\<rparr>, None))"
  proof -
    obtain t i where ti: "latestLoop snaps (time_Unix_0_0, []) = (t, i)"
      by (cases "latestLoop snaps (time_Unix_0_0, [])") auto
    show ?thesis
      using assms ti by (cases snaps) (simp_all add: findLatestSnap_def)
  qed
  show "(\<exists>e. snd (snd (findLatestSnap R c tr)) = Some e \<and> NotFound e) \<longleftrightarrow>
            snaps = [] \<or> snd (latestLoop snaps (time_Unix_0_0, [])) = []"
    unfolding r by (simp add: NotFound_def)
  show "snd (latestLoop snaps (time_Unix_0_0, [])) = [] \<longleftrightarrow>
            (\<forall>s\<in>set snaps. \<not> After (SnapshotCreateTime s) time_Unix_0_0) \<or>
            (\<exists>pre s post. snaps = pre @ s # post \<and> DBSnapshotIdentifier s = [] \<and>
               After (SnapshotCreateTime s) time_Unix_0_0 \<and>
               (\<forall>p\<in>set pre. After (SnapshotCreateTime s) (SnapshotCreateTime p)) \<and>
               (\<forall>q\<in>set post. \<not> After (SnapshotCreateTime q) (SnapshotCreateTime s)))"
    (is "?l \<longleftrightarrow> ?none \<or> ?empty")
  proof
    assume ?l
    with latestLoop_cases [of snaps time_Unix_0_0 "[]"] show "?none \<or> ?empty"
      by (elim disjE exE conjE) (simp, metis snd_conv)
  next
    assume "?none \<or> ?empty"
    then show ?l
    proof
      assume ?none
      with latestLoop_cases [of snaps time_Unix_0_0 "[]"] show ?l
        by (elim disjE exE conjE) auto
    next
      assume ?empty
      then obtain pre s post where e: "snaps = pre @ s # post" "DBSnapshotIdentifier s = []"
        "After (SnapshotCreateTime s) time_Unix_0_0"
        "\<forall>p\<in>set pre. After (SnapshotCreateTime s) (SnapshotCreateTime p)"
        "\<forall>q\<in>set post. \<not> After (SnapshotCreateTime q) (SnapshotCreateTime s)"
        by blast
      from latestLoop_cases [of snaps time_Unix_0_0 "[]"] show ?l
      proof (elim disjE exE conjE)
        assume "\<forall>r\<in>set snaps. \<not> After (SnapshotCreateTime r) time_Unix_0_0"
        then show ?l using e(1,3) by simp
      next
        fix pre' s' post'
        assume a: "snaps = pre' @ s' # post'"
          "latestLoop snaps (time_Unix_0_0, []) = (SnapshotCreateTime s', DBSnapshotIdentifier s')"
          "\<forall>p\<in>set pre'. After (SnapshotCreateTime s') (SnapshotCreateTime p)"
          "\<forall>q\<in>set post'. \<not> After (SnapshotCreateTime q) (SnapshotCreateTime s')"
        have "s' = s"
          using split_twice [of pre s post pre' s' post'] e(1,4,5) a(1,3,4) by auto
        then show ?l using a(2) e(2) by simp
      qed
    qed
  qed
qed

theorem findLatestSnap_NotFound_witness:
  "describeDBSnapshots ex_remote [] (src ex_config) (Some (dbid ex_config)) None = Inr [] \<and>
   findLatestSnap ex_remote ex_config [] =
     ([DescribeDBSnapshots ''east'' (Some ''db'') None], ex_config, Some NoSnapshotsFound) \<and>
   NotFound NoSnapshotsFound"
proof -
  have l: "describeDBSnapshots ex_remote [] (src ex_config) (Some (dbid ex_config)) None = Inr []"
    by (simp add: ex_remote_def)
  show ?thesis
    using findLatestSnap_NotFound [OF l] l by (simp add: ex_config_def NotFound_def)
qed

section \<open>The completion wait\<close>

text \<open>
  C8. The \<open>i\<close>-th poll is issued after the first \<open>i\<close> polls. When the first
  \<open>n\<close> polls answer with one snapshot in status "creating" and the next poll
  answers otherwise, the wait (followed for more than \<open>n\<close> polls)
  returns after exactly \<open>n + 1\<close> polls: with the poll's error when the poll failed,
  with "New snapshot missing!" when it lists no snapshot or more than one, and with
  success when it lists one snapshot, whose status is then not "creating"; the
  percent-complete value is never read. Followed for \<open>n\<close> polls or fewer, the wait is
  still running.
\<close>

theorem waitForCopy_first_poll:
  "(\<forall>i<n. creating (describeDBSnapshots R
       (tr @ replicate i (DescribeDBSnapshots (dst c) None (Some (copyId c)))) (dst c) None (Some (copyId c)))) \<Longrightarrow>
   \<not> creating (describeDBSnapshots R
       (tr @ replicate n (DescribeDBSnapshots (dst c) None (Some (copyId c)))) (dst c) None (Some (copyId c))) \<Longrightarrow>
   waitForCopy fuel R c tr =
     (if n < fuel then
        (tr @ replicate (Suc n) (DescribeDBSnapshots (dst c) None (Some (copyId c))),
         Done (case describeDBSnapshots R
                (tr @ replicate n (DescribeDBSnapshots (dst c) None (Some (copyId c)))) (dst c) None (Some (copyId c)) of
                 Inl err \<Rightarrow> Some err
               | Inr snaps \<Rightarrow> if length snaps = 1 then None else Some NewSnapshotMissing))
      else (tr @ replicate fuel (DescribeDBSnapshots (dst c) None (Some (copyId c))), Running))"
proof (induction fuel arbitrary: tr n)
  case 0
  then show ?case by simp
next
  case (Suc fuel)
  let ?q = "DescribeDBSnapshots (dst c) None (Some (copyId c))"
  show ?case
  proof (cases n)
    case 0
    with Suc.prems(2) have nc: "\<not> creating (describeDBSnapshots R tr (dst c) None (Some (copyId c)))"
      by simp
    show ?thesis
    proof (cases "describeDBSnapshots R tr (dst c) None (Some (copyId c))")
      case (Inl err)
      then show ?thesis using 0 by simp
    next
      case (Inr snaps)
      show ?thesis
      proof (cases snaps)
        case Nil
        then show ?thesis using 0 Inr by simp
      next
        case (Cons s ss)
        then show ?thesis using 0 Inr nc by (cases ss) auto
      qed
    qed
  next
    case (Suc m)
    have "creating (describeDBSnapshots R (tr @ replicate 0 ?q) (dst c) None (Some (copyId c)))"
      using Suc.prems(1) Suc by blast
    then obtain s where s: "describeDBSnapshots R tr (dst c) None (Some (copyId c)) = Inr [s]"
      "Status s = ''creating''"
      by (cases "describeDBSnapshots R tr (dst c) None (Some (copyId c))" rule: creating.cases) auto
    have step: "waitForCopy (Suc fuel) R c tr = waitForCopy fuel R c (tr @ [?q])"
      using s by simp
    have p1: "\<forall>i<m. creating (describeDBSnapshots R ((tr @ [?q]) @ replicate i ?q) (dst c) None (Some (copyId c)))"
    proof (intro allI impI)
      fix i assume "i < m"
      then have "Suc i < n" using Suc by simp
      then have "creating (describeDBSnapshots R (tr @ replicate (Suc i) ?q) (dst c) None (Some (copyId c)))"
        using Suc.prems(1) by blast
      then show "creating (describeDBSnapshots R ((tr @ [?q]) @ replicate i ?q) (dst c) None (Some (copyId c)))"
        by simp
    qed
    have p2: "\<not> creating (describeDBSnapshots R ((tr @ [?q]) @ replicate m ?q) (dst c) None (Some (copyId c)))"
      using Suc.prems(2) Suc by simp
    show ?thesis
      unfolding step using Suc.IH [OF p1 p2] Suc by simp
  qed
qed

theorem waitForCopy_first_poll_witness:
  "creating (describeDBSnapshots (ex_world []) [] ''west'' None (Some ''id'')) \<and>
   creating (describeDBSnapshots (ex_world [])
     [DescribeDBSnapshots ''west'' None (Some ''id'')] ''west'' None (Some ''id'')) \<and>
   describeDBSnapshots (ex_world [])
     [DescribeDBSnapshots ''west'' None (Some ''id''), DescribeDBSnapshots ''west'' None (Some ''id'')]
     ''west'' None (Some ''id'') = Inr [ex_snap ''id'' 100 ''failed''] \<and>
   waitForCopy 5 (ex_world []) (ex_config\<lparr>copyId := ''id''\<rparr>) [] =
     ([DescribeDBSnapshots ''west'' None (Some ''id''), DescribeDBSnapshots ''west'' None (Some ''id''),
       DescribeDBSnapshots ''west'' None (Some ''id'')], Done None)"
proof -
  let ?c = "ex_config\<lparr>copyId := ''id''\<rparr>"
  let ?q = "DescribeDBSnapshots (dst ?c) None (Some (copyId ?c))"
  have q: "?q = DescribeDBSnapshots ''west'' None (Some ''id'')"
    by (simp add: ex_config_def)
  have p0: "creating (describeDBSnapshots (ex_world []) [] ''west'' None (Some ''id''))"
    by (simp add: ex_world_def ex_snap_def)
  have p1: "creating (describeDBSnapshots (ex_world [])
     [DescribeDBSnapshots ''west'' None (Some ''id'')] ''west'' None (Some ''id''))"
    by (simp add: ex_world_def ex_snap_def)
  have p2: "describeDBSnapshots (ex_world [])
     [DescribeDBSnapshots ''west'' None (Some ''id''), DescribeDBSnapshots ''west'' None (Some ''id'')]
     ''west'' None (Some ''id'') = Inr [ex_snap ''id'' 100 ''failed'']"
    by (simp add: ex_world_def)
  have h1: "\<forall>i<2. creating (describeDBSnapshots (ex_world []) ([] @ replicate i ?q) (dst ?c) None (Some (copyId ?c)))"
  proof (intro allI impI)
    fix i :: nat assume "i < 2"
    then have "i = 0 \<or> i = 1" by auto
    then show "creating (describeDBSnapshots (ex_world []) ([] @ replicate i ?q) (dst ?c) None (Some (copyId ?c)))"
      using p0 p1 by (auto simp: ex_config_def)
  qed
  have r2: "replicate 2 ?q = [?q, ?q]"
    by (simp add: numeral_2_eq_2)
  have h2: "\<not> creating (describeDBSnapshots (ex_world []) ([] @ replicate 2 ?q) (dst ?c) None (Some (copyId ?c)))"
    unfolding r2 using p2 by (simp add: ex_config_def ex_snap_def)
  have r3: "replicate (Suc 2) ?q = [?q, ?q, ?q]"
    by (simp add: numeral_2_eq_2)
  show ?thesis
    using waitForCopy_first_poll [OF h1 h2, of 5] p0 p1 p2
    unfolding r2 r3 by (simp add: ex_config_def)
qed

section \<open>The requests each step issues\<close>

lemma findAcccountID_trace: "fst (findAcccountID R c tr) = tr @ [GetUser (src c)]"
  by (simp add: findAcccountID_def Let_def split: sum.splits)

lemma findLatestSnap_trace:
  "fst (findLatestSnap R c tr) = tr @ [DescribeDBSnapshots (src c) (Some (dbid c)) None]"
  by (simp add: findLatestSnap_def Let_def split: sum.splits prod.splits)

lemma findLatestSnap_config:
  "findLatestSnap R c tr = (tr', c', e) \<Longrightarrow> c' = c\<lparr>arn := arn c'\<rparr>"
  by (auto simp: findLatestSnap_def Let_def split: sum.splits prod.splits if_splits)

lemma checkLoop_trace:
  "\<exists>ext. fst (checkLoop R c tr ss) = tr @ ext \<and> list_all isListTags ext"
proof (induction ss arbitrary: tr)
  case Nil
  then show ?case by simp
next
  case (Cons s ss)
  let ?q = "ListTagsForResource (dst c) (snapshotArn (dst c) (awsAcctId c) (DBSnapshotIdentifier s))"
  from Cons [of "tr @ [?q]"] obtain ext where
    ext: "fst (checkLoop R c (tr @ [?q]) ss) = tr @ ?q # ext" "list_all isListTags ext"
    by auto
  have "fst (checkLoop R c tr (s # ss)) = tr @ [?q] \<or> fst (checkLoop R c tr (s # ss)) = tr @ ?q # ext"
    using ext(1) by (simp add: Let_def split: sum.splits prod.splits)
  then show ?case
  proof
    assume "fst (checkLoop R c tr (s # ss)) = tr @ [?q]"
    then have "fst (checkLoop R c tr (s # ss)) = tr @ [?q] \<and> list_all isListTags [?q]" by simp
    then show ?thesis by blast
  next
    assume "fst (checkLoop R c tr (s # ss)) = tr @ ?q # ext"
    then have "fst (checkLoop R c tr (s # ss)) = tr @ (?q # ext) \<and> list_all isListTags (?q # ext)"
      using ext(2) by simp
    then show ?thesis by blast
  qed
qed

lemma checkSnapCopied_trace:
  "\<exists>ext. fst (checkSnapCopied R c tr) =
     tr @ DescribeDBSnapshots (dst c) (Some (dbid c)) None # ext \<and> list_all isListTags ext"
proof (cases "describeDBSnapshots R tr (dst c) (Some (dbid c)) None")
  case (Inl err)
  then have "fst (checkSnapCopied R c tr) =
     tr @ DescribeDBSnapshots (dst c) (Some (dbid c)) None # [] \<and> list_all isListTags []"
    by (simp add: checkSnapCopied_def)
  then show ?thesis by blast
next
  case (Inr snaps)
  with checkLoop_trace [of R c "tr @ [DescribeDBSnapshots (dst c) (Some (dbid c)) None]" snaps]
  show ?thesis by (auto simp: checkSnapCopied_def)
qed

lemma copySnap_trace:
  "fst (copySnap R clk c tr) = tr @ [CopyDBSnapshot (dst c) (copyMessage clk c)]"
  by (simp add: copySnap_def Let_def split: sum.splits)

lemma copySnap_config:
  "fst (snd (copySnap R clk c tr)) = c\<lparr>copyId := TargetDBSnapshotIdentifier (copyMessage clk c)\<rparr>"
  by (simp add: copySnap_def Let_def split: sum.splits)

lemma waitForCopy_trace:
  "\<exists>k. fst (waitForCopy fuel R c tr) =
     tr @ replicate k (DescribeDBSnapshots (dst c) None (Some (copyId c)))"
proof (induction fuel arbitrary: tr)
  case 0
  have "fst (waitForCopy 0 R c tr) = tr @ replicate 0 (DescribeDBSnapshots (dst c) None (Some (copyId c)))"
    by simp
  then show ?case by blast
next
  case (Suc fuel)
  let ?q = "DescribeDBSnapshots (dst c) None (Some (copyId c))"
  from Suc [of "tr @ [?q]"] obtain k where
    k: "fst (waitForCopy fuel R c (tr @ [?q])) = tr @ replicate (Suc k) ?q"
    by auto
  have "fst (waitForCopy (Suc fuel) R c tr) = tr @ replicate (Suc 0) ?q \<or>
      fst (waitForCopy (Suc fuel) R c tr) = tr @ replicate (Suc k) ?q"
    using k by (simp add: Let_def split: sum.splits)
  then show ?case by blast
qed

lemma purgeLoop_trace:
  "\<exists>ext. fst (purgeLoop R c tr idents) = tr @ ext \<and> list_all isDelete ext"
proof (induction idents arbitrary: tr)
  case Nil
  then show ?case by simp
next
  case (Cons i idents)
  let ?q = "DeleteDBSnapshot (dst c) i"
  from Cons [of "tr @ [?q]"] obtain ext where
    ext: "fst (purgeLoop R c (tr @ [?q]) idents) = tr @ ?q # ext" "list_all isDelete ext"
    by auto
  have "fst (purgeLoop R c tr (i # idents)) = tr @ [?q] \<or> fst (purgeLoop R c tr (i # idents)) = tr @ ?q # ext"
    using ext(1) by (simp add: Let_def split: sum.splits)
  then show ?case
  proof
    assume "fst (purgeLoop R c tr (i # idents)) = tr @ [?q]"
    then have "fst (purgeLoop R c tr (i # idents)) = tr @ [?q] \<and> list_all isDelete [?q]" by simp
    then show ?thesis by blast
  next
    assume "fst (purgeLoop R c tr (i # idents)) = tr @ ?q # ext"
    then have "fst (purgeLoop R c tr (i # idents)) = tr @ (?q # ext) \<and> list_all isDelete (?q # ext)"
      using ext(2) by simp
    then show ?thesis by blast
  qed
qed

lemma collectLoop_trace:
  "fst (collectLoop R c tr ss acc) =
     tr @ map (\<lambda>s. ListTagsForResource (dst c) (snapshotArn (dst c) (awsAcctId c) (DBSnapshotIdentifier s))) ss"
  by (induction ss arbitrary: tr acc) (simp_all add: Let_def split: sum.splits)

lemma isDelete_kind: "isDelete q \<Longrightarrow> \<not> isCopy q \<and> \<not> isPoll q \<and> \<not> isListTags q"
  by (cases q) auto

lemma isListTags_kind: "isListTags q \<Longrightarrow> \<not> isCopy q \<and> \<not> isPoll q \<and> \<not> isDelete q"
  by (cases q) auto

lemma cleanupSnaps_trace:
  "\<exists>ext. fst (cleanupSnaps R c tr) = tr @ ext \<and> list_all (\<lambda>q. \<not> isCopy q \<and> \<not> isPoll q) ext"
proof (cases "purge c \<le> 0")
  case True
  then have "fst (cleanupSnaps R c tr) = tr @ [] \<and> list_all (\<lambda>q. \<not> isCopy q \<and> \<not> isPoll q) []"
    by (simp add: cleanupSnaps_def)
  then show ?thesis by blast
next
  case False
  let ?q = "DescribeDBSnapshots (dst c) (Some (dbid c)) None"
  show ?thesis
  proof (cases "describeDBSnapshots R tr (dst c) (Some (dbid c)) None")
    case (Inl err)
    then have "fst (cleanupSnaps R c tr) = tr @ [?q] \<and> list_all (\<lambda>q. \<not> isCopy q \<and> \<not> isPoll q) [?q]"
      using False by (simp add: cleanupSnaps_def)
    then show ?thesis by blast
  next
    case (Inr resp)
    let ?lt = "map (\<lambda>s. ListTagsForResource (dst c) (snapshotArn (dst c) (awsAcctId c) (DBSnapshotIdentifier s))) resp"
    obtain tr'' snaps keys where col: "collectLoop R c (tr @ [?q]) resp ([], []) = (tr'', snaps, keys)"
      by (cases "collectLoop R c (tr @ [?q]) resp ([], [])") auto
    then have tr'': "tr'' = tr @ ?q # ?lt"
      using collectLoop_trace [of R c "tr @ [?q]" resp "([], [])"] by simp
    have lt: "list_all (\<lambda>q. \<not> isCopy q \<and> \<not> isPoll q) ?lt"
      by (simp add: list_all_iff)
    show ?thesis
    proof (cases "int (length snaps) \<le> purge c")
      case True
      then have "fst (cleanupSnaps R c tr) = tr @ (?q # ?lt) \<and>
          list_all (\<lambda>q. \<not> isCopy q \<and> \<not> isPoll q) (?q # ?lt)"
        using False Inr col tr'' lt by (simp add: cleanupSnaps_def)
      then show ?thesis by blast
    next
      case gt: False
      let ?ids = "map (mapIndex snaps) (take (nat (int (length snaps) - purge c)) (sort keys))"
      from purgeLoop_trace [of R c tr'' ?ids] obtain ext where
        ext: "fst (purgeLoop R c tr'' ?ids) = tr'' @ ext" "list_all isDelete ext"
        by blast
      have "list_all (\<lambda>q. \<not> isCopy q \<and> \<not> isPoll q) ext"
        using ext(2) isDelete_kind by (auto simp: list_all_iff)
      then have "fst (cleanupSnaps R c tr) = tr @ (?q # ?lt @ ext) \<and>
          list_all (\<lambda>q. \<not> isCopy q \<and> \<not> isPoll q) (?q # ?lt @ ext)"
        using False gt Inr col tr'' lt ext(1) by (simp add: cleanupSnaps_def)
      then show ?thesis by blast
    qed
  qed
qed

section \<open>The run as a whole\<close>

lemma filter_isCopy_listTags: "list_all isListTags ext \<Longrightarrow> filter isCopy ext = []"
  using isListTags_kind by (induction ext) auto

lemma filter_isPoll_listTags: "list_all isListTags ext \<Longrightarrow> filter isPoll ext = []"
  using isListTags_kind by (induction ext) auto

lemma filter_isCopy_rest: "list_all (\<lambda>q. \<not> isCopy q \<and> \<not> isPoll q) ext \<Longrightarrow> filter isCopy ext = []"
  by (induction ext) auto

text \<open>The requests of a run up to the idempotency check.\<close>

lemma check_prefix:
  assumes "findAcccountID R c [] = (tr1, Inr acct)"
    and "findLatestSnap R (c\<lparr>awsAcctId := acct\<rparr>) tr1 = (tr2, c2, None)"
    and "checkSnapCopied R c2 tr2 = (tr3, b)"
  shows "dst c2 = dst c \<and> dbid c2 = dbid c \<and> src c2 = src c \<and> awsAcctId c2 = acct \<and>
         purge c2 = purge c \<and>
         tr1 = [GetUser (src c)] \<and>
         tr2 = [GetUser (src c), DescribeDBSnapshots (src c) (Some (dbid c)) None] \<and>
         (\<exists>ext. tr3 = tr2 @ DescribeDBSnapshots (dst c) (Some (dbid c)) None # ext \<and>
                list_all isListTags ext)"
proof -
  have c2: "c2 = c\<lparr>awsAcctId := acct, arn := arn c2\<rparr>"
    using findLatestSnap_config [OF assms(2)] by simp
  have f: "dst c2 = dst c \<and> dbid c2 = dbid c \<and> src c2 = src c \<and> awsAcctId c2 = acct \<and>
         purge c2 = purge c"
    by (subst c2, simp)+
  have t1: "tr1 = [GetUser (src c)]"
    using findAcccountID_trace [of R c "[]"] assms(1) by simp
  have t2: "tr2 = [GetUser (src c), DescribeDBSnapshots (src c) (Some (dbid c)) None]"
    using findLatestSnap_trace [of R "c\<lparr>awsAcctId := acct\<rparr>" tr1] assms(2) t1 by simp
  show ?thesis
    using f t1 t2 checkSnapCopied_trace [of R c2 tr2] assms(3) by simp
qed

text \<open>The run from the copy on, when the idempotency check answered "not copied".\<close>

lemma main_after_check:
  assumes "findAcccountID R c [] = (tr1, Inr acct)"
    and "findLatestSnap R (c\<lparr>awsAcctId := acct\<rparr>) tr1 = (tr2, c2, None)"
    and "checkSnapCopied R c2 tr2 = (tr3, b)"
  shows "main fuel R clk (c, None) =
    (if b then (tr3, Done 0)
     else (case copySnap R clk c2 tr3 of
        (tr4, c3, Some err) \<Rightarrow> (tr4, Done 1)
      | (tr4, c3, None) \<Rightarrow>
     (case waitForCopy fuel R c3 tr4 of
        (tr5, Running) \<Rightarrow> (tr5, Running)
      | (tr5, Done (Some err)) \<Rightarrow> (tr5, Done 1)
      | (tr5, Done None) \<Rightarrow>
     (case cleanupSnaps R c3 tr5 of
        (tr6, Some err) \<Rightarrow> (tr6, Done 1)
      | (tr6, None) \<Rightarrow> (tr6, Done 0)))))"
  using assms by (simp add: main_def)

lemma main_copies:
  assumes "findAcccountID R c [] = (tr1, Inr acct)"
    and "findLatestSnap R (c\<lparr>awsAcctId := acct\<rparr>) tr1 = (tr2, c2, None)"
    and "checkSnapCopied R c2 tr2 = (tr3, b)"
  shows "filter isCopy (fst (main fuel R clk (c, None))) =
           (if b then [] else [CopyDBSnapshot (dst c) (copyMessage clk c2)])"
proof -
  from check_prefix [OF assms] obtain ext where
    p: "dst c2 = dst c" "tr2 = [GetUser (src c), DescribeDBSnapshots (src c) (Some (dbid c)) None]"
       "tr3 = tr2 @ DescribeDBSnapshots (dst c) (Some (dbid c)) None # ext" "list_all isListTags ext"
    by blast
  have f3: "filter isCopy tr3 = []"
    using p(2,3) filter_isCopy_listTags [OF p(4)] by simp
  show ?thesis
  proof (cases b)
    case True
    then show ?thesis using main_after_check [OF assms] f3 by simp
  next
    case False
    obtain tr4 c3 e where cp: "copySnap R clk c2 tr3 = (tr4, c3, e)"
      by (cases "copySnap R clk c2 tr3") auto
    have t4: "tr4 = tr3 @ [CopyDBSnapshot (dst c) (copyMessage clk c2)]"
      using copySnap_trace [of R clk c2 tr3] cp p(1) by simp
    have f4: "filter isCopy tr4 = [CopyDBSnapshot (dst c) (copyMessage clk c2)]"
      using t4 f3 by simp
    show ?thesis
    proof (cases e)
      case (Some err)
      then show ?thesis using main_after_check [OF assms, of fuel clk] False cp f4 by simp
    next
      case None
      obtain tr5 r where w: "waitForCopy fuel R c3 tr4 = (tr5, r)"
        by (cases "waitForCopy fuel R c3 tr4") auto
      from waitForCopy_trace [of fuel R c3 tr4] w obtain k where
        t5: "tr5 = tr4 @ replicate k (DescribeDBSnapshots (dst c3) None (Some (copyId c3)))"
        by auto
      have f5: "filter isCopy tr5 = [CopyDBSnapshot (dst c) (copyMessage clk c2)]"
        using t5 f4 by simp
      obtain tr6 e' where cl: "cleanupSnaps R c3 tr5 = (tr6, e')"
        by (cases "cleanupSnaps R c3 tr5") auto
      from cleanupSnaps_trace [of R c3 tr5] cl obtain ext' where
        t6: "tr6 = tr5 @ ext'" "list_all (\<lambda>q. \<not> isCopy q \<and> \<not> isPoll q) ext'"
        by auto
      have f6: "filter isCopy tr6 = [CopyDBSnapshot (dst c) (copyMessage clk c2)]"
        using t6(1) f5 filter_isCopy_rest [OF t6(2)] by simp
      show ?thesis
        using main_after_check [OF assms, of fuel clk] False cp None w cl f5 f6
        by (simp split: run.splits option.splits)
    qed
  qed
qed

section \<open>The idempotency check\<close>

lemma Tag_eq: "(t = \<lparr>Key = k, Value = v\<rparr>) = (Key t = k \<and> Value t = v)"
  by (cases t) auto

lemma tagLoop_result:
  "tagLoop c ts (m, s) =
     (m \<or> managedby \<in> set ts, s \<or> \<lparr>Key = ''sourcearn'', Value = arn c\<rparr> \<in> set ts)"
proof (induction ts arbitrary: m s)
  case Nil
  then show ?case by simp
next
  case (Cons t ts)
  have k: "''managedby'' \<noteq> ''sourcearn''" by simp
  show ?case
    using k by (auto simp: Cons managedby_def Tag_eq)
qed

lemma checkLoop_result:
  assumes "\<forall>h. listTagsForResource R h (dst c) = tagsOf"
  shows "snd (checkLoop R c tr ss) =
     (\<exists>s\<in>set ss. \<exists>ts. tagsOf (snapshotArn (dst c) (awsAcctId c) (DBSnapshotIdentifier s)) = Inr ts \<and>
        managedby \<in> set ts \<and> \<lparr>Key = ''sourcearn'', Value = arn c\<rparr> \<in> set ts)"
proof (induction ss arbitrary: tr)
  case Nil
  then show ?case by simp
next
  case (Cons s ss)
  show ?case
  proof (cases "tagsOf (snapshotArn (dst c) (awsAcctId c) (DBSnapshotIdentifier s))")
    case (Inl err)
    then show ?thesis using assms Cons by simp
  next
    case (Inr ts)
    show ?thesis
    proof (cases "managedby \<in> set ts \<and> \<lparr>Key = ''sourcearn'', Value = arn c\<rparr> \<in> set ts")
      case True
      have "snd (checkLoop R c tr (s # ss))"
        using assms Inr True by (simp add: tagLoop_result)
      then show ?thesis using Inr True by auto
    next
      case False
      have "snd (checkLoop R c tr (s # ss)) =
          snd (checkLoop R c (tr @ [ListTagsForResource (dst c)
            (snapshotArn (dst c) (awsAcctId c) (DBSnapshotIdentifier s))]) ss)"
        using assms Inr False by (auto simp: tagLoop_result)
      then show ?thesis using Inr False Cons by auto
    qed
  qed
qed

text \<open>
  C1. In a run whose Locator produced the configuration \<open>c2\<close>, with the destination
  listing \<open>snaps\<close> and tag reads that answer \<open>tagsOf\<close> throughout the scan:
  \<^verbatim>\<open>checkSnapCopied\<close> answers true if and only if some listed snapshot's tags hold
  both \<open>managedby = rdsbackup\<close> and \<open>sourcearn\<close> equal to \<^verbatim>\<open>c.arn\<close>, the reference
  the Locator computed in this run. When it answers true the run exits with status 0
  right after the check and its requests include no copy request; when it answers false
  the run issues the copy request (once).
\<close>

theorem checkSnapCopied_iff:
  assumes "findAcccountID R c [] = (tr1, Inr acct)"
    and "findLatestSnap R (c\<lparr>awsAcctId := acct\<rparr>) tr1 = (tr2, c2, None)"
    and "describeDBSnapshots R tr2 (dst c) (Some (dbid c)) None = Inr snaps"
    and "\<forall>h. listTagsForResource R h (dst c) = tagsOf"
  shows "(snd (checkSnapCopied R c2 tr2) \<longleftrightarrow>
           (\<exists>s\<in>set snaps. \<exists>ts. tagsOf (snapshotArn (dst c) acct (DBSnapshotIdentifier s)) = Inr ts \<and>
              managedby \<in> set ts \<and> \<lparr>Key = ''sourcearn'', Value = arn c2\<rparr> \<in> set ts)) \<and>
         (snd (checkSnapCopied R c2 tr2) \<longrightarrow>
            main fuel R clk (c, None) = (fst (checkSnapCopied R c2 tr2), Done 0) \<and>
            filter isCopy (fst (main fuel R clk (c, None))) = []) \<and>
         (\<not> snd (checkSnapCopied R c2 tr2) \<longrightarrow>
            filter isCopy (fst (main fuel R clk (c, None))) =
              [CopyDBSnapshot (dst c) (copyMessage clk c2)])"
proof -
  obtain tr3 b where ch: "checkSnapCopied R c2 tr2 = (tr3, b)"
    by (cases "checkSnapCopied R c2 tr2") auto
  from check_prefix [OF assms(1,2) ch]
  have f: "dst c2 = dst c" "dbid c2 = dbid c" "awsAcctId c2 = acct" by simp_all
  have tags: "\<forall>h. listTagsForResource R h (dst c2) = tagsOf"
    using assms(4) f(1) by simp
  have "snd (checkSnapCopied R c2 tr2) =
      snd (checkLoop R c2 (tr2 @ [DescribeDBSnapshots (dst c2) (Some (dbid c2)) None]) snaps)"
    using assms(3) f by (simp add: checkSnapCopied_def)
  then have iff: "snd (checkSnapCopied R c2 tr2) \<longleftrightarrow>
           (\<exists>s\<in>set snaps. \<exists>ts. tagsOf (snapshotArn (dst c) acct (DBSnapshotIdentifier s)) = Inr ts \<and>
              managedby \<in> set ts \<and> \<lparr>Key = ''sourcearn'', Value = arn c2\<rparr> \<in> set ts)"
    using checkLoop_result [OF tags] f by simp
  show ?thesis
  proof (cases b)
    case True
    have "main fuel R clk (c, None) = (tr3, Done 0)"
      using main_after_check [OF assms(1,2) ch] True by simp
    moreover have "filter isCopy (fst (main fuel R clk (c, None))) = []"
      using main_copies [OF assms(1,2) ch, of fuel clk] True by simp
    ultimately show ?thesis using iff ch True by simp
  next
    case False
    have "filter isCopy (fst (main fuel R clk (c, None))) =
        [CopyDBSnapshot (dst c) (copyMessage clk c2)]"
      using main_copies [OF assms(1,2) ch, of fuel clk] False by simp
    then show ?thesis using iff ch False by simp
  qed
qed

theorem checkSnapCopied_iff_witness:
  "findAcccountID (ex_world ''arn:aws:rds:east:42:snapshot:s2'') ex_config [] =
     ([GetUser ''east''], Inr ''42'') \<and>
   findLatestSnap (ex_world ''arn:aws:rds:east:42:snapshot:s2'') (ex_config\<lparr>awsAcctId := ''42''\<rparr>)
     [GetUser ''east''] =
     ([GetUser ''east'', DescribeDBSnapshots ''east'' (Some ''db'') None],
      ex_config\<lparr>awsAcctId := ''42'', arn := ''arn:aws:rds:east:42:snapshot:s2''\<rparr>, None) \<and>
   describeDBSnapshots (ex_world ''arn:aws:rds:east:42:snapshot:s2'')
     [GetUser ''east'', DescribeDBSnapshots ''east'' (Some ''db'') None]
     (dst ex_config) (Some (dbid ex_config)) None = Inr ex_dest \<and>
   ex_snap ''c3'' 25 ''available'' \<in> set ex_dest \<and>
   ex_tags ''arn:aws:rds:east:42:snapshot:s2'' (snapshotArn (dst ex_config) ''42'' ''c3'') =
     Inr [managedby, \<lparr>Key = ''sourcearn'', Value = ''arn:aws:rds:east:42:snapshot:s2''\<rparr>] \<and>
   main 5 (ex_world ''arn:aws:rds:east:42:snapshot:s2'') ex_clock (ex_config, None) =
     ([GetUser ''east'', DescribeDBSnapshots ''east'' (Some ''db'') None,
       DescribeDBSnapshots ''west'' (Some ''db'') None,
       ListTagsForResource ''west'' ''arn:aws:rds:west:42:snapshot:c2'',
       ListTagsForResource ''west'' ''arn:aws:rds:west:42:snapshot:u1'',
       ListTagsForResource ''west'' ''arn:aws:rds:west:42:snapshot:c1'',
       ListTagsForResource ''west'' ''arn:aws:rds:west:42:snapshot:c3''], Done 0)"
proof -
  let ?R = "ex_world ''arn:aws:rds:east:42:snapshot:s2''"
  let ?c2 = "ex_config\<lparr>awsAcctId := ''42'', arn := ''arn:aws:rds:east:42:snapshot:s2''\<rparr>"
  let ?tr2 = "[GetUser ''east'', DescribeDBSnapshots ''east'' (Some ''db'') None]"
  have a: "findAcccountID ?R ex_config [] = ([GetUser ''east''], Inr ''42'')"
    by (simp add: findAcccountID_def ex_world_def ex_remote_def ex_config_def)
  have l: "findLatestSnap ?R (ex_config\<lparr>awsAcctId := ''42''\<rparr>) [GetUser ''east''] = (?tr2, ?c2, None)"
    by (simp add: findLatestSnap_def ex_world_def ex_remote_def ex_config_def ex_source_def
        ex_snap_def After_def time_Unix_0_0_def snapshotArn_def)
  have d: "describeDBSnapshots ?R ?tr2 (dst ex_config) (Some (dbid ex_config)) None = Inr ex_dest"
    by (simp add: ex_world_def ex_config_def)
  have t: "\<forall>h. listTagsForResource ?R h (dst ex_config) = ex_tags ''arn:aws:rds:east:42:snapshot:s2''"
    by (simp add: ex_world_def)
  have s: "ex_snap ''c3'' 25 ''available'' \<in> set ex_dest"
    by (simp add: ex_dest_def)
  have g: "ex_tags ''arn:aws:rds:east:42:snapshot:s2'' (snapshotArn (dst ex_config) ''42'' ''c3'') =
     Inr [managedby, \<lparr>Key = ''sourcearn'', Value = ''arn:aws:rds:east:42:snapshot:s2''\<rparr>]"
    by (simp add: ex_tags_def snapshotArn_def ex_config_def)
  have copied: "\<exists>s\<in>set ex_dest. \<exists>ts.
      ex_tags ''arn:aws:rds:east:42:snapshot:s2'' (snapshotArn (dst ex_config) ''42'' (DBSnapshotIdentifier s)) = Inr ts \<and>
      managedby \<in> set ts \<and> \<lparr>Key = ''sourcearn'', Value = arn ?c2\<rparr> \<in> set ts"
    using s g by (intro bexI [of _ "ex_snap ''c3'' 25 ''available''"]) (auto simp: ex_snap_def)
  have tr: "fst (checkSnapCopied ?R ?c2 ?tr2) =
     [GetUser ''east'', DescribeDBSnapshots ''east'' (Some ''db'') None,
       DescribeDBSnapshots ''west'' (Some ''db'') None,
       ListTagsForResource ''west'' ''arn:aws:rds:west:42:snapshot:c2'',
       ListTagsForResource ''west'' ''arn:aws:rds:west:42:snapshot:u1'',
       ListTagsForResource ''west'' ''arn:aws:rds:west:42:snapshot:c1'',
       ListTagsForResource ''west'' ''arn:aws:rds:west:42:snapshot:c3'']"
    by (simp add: checkSnapCopied_def ex_world_def ex_config_def ex_dest_def ex_snap_def
        ex_tags_def snapshotArn_def managedby_def)
  from checkSnapCopied_iff [OF a l d t, of 5 ex_clock] copied
  have "main 5 ?R ex_clock (ex_config, None) = (fst (checkSnapCopied ?R ?c2 ?tr2), Done 0)"
    by blast
  then show ?thesis using a l d s g tr by simp
qed

section \<open>Copy initiation\<close>

text \<open>
  C7. In a run that reaches the copy, when the copy request is answered with a snapshot:
  \<^verbatim>\<open>copySnap\<close> issues the one request and succeeds if the snapshot's status is
  "creating"; with any other status it returns "Error creating snapshot - unexpected
  status", the run exits with status 1 right after that request, and the requests of
  the run hold exactly one copy request (no retry) and no poll.
\<close>

theorem copySnap_status:
  assumes "findAcccountID R c [] = (tr1, Inr acct)"
    and "findLatestSnap R (c\<lparr>awsAcctId := acct\<rparr>) tr1 = (tr2, c2, None)"
    and "checkSnapCopied R c2 tr2 = (tr3, False)"
    and "copyDBSnapshot R tr3 (dst c2) (copyMessage clk c2) = Inr snap"
  shows "copySnap R clk c2 tr3 =
           (tr3 @ [CopyDBSnapshot (dst c2) (copyMessage clk c2)],
            c2\<lparr>copyId := TargetDBSnapshotIdentifier (copyMessage clk c2)\<rparr>,
            if Status snap = ''creating'' then None else Some (UnexpectedStatus (Status snap))) \<and>
         (Status snap \<noteq> ''creating'' \<longrightarrow>
            main fuel R clk (c, None) =
              (tr3 @ [CopyDBSnapshot (dst c2) (copyMessage clk c2)], Done 1) \<and>
            filter isCopy (fst (main fuel R clk (c, None))) =
              [CopyDBSnapshot (dst c2) (copyMessage clk c2)] \<and>
            filter isPoll (fst (main fuel R clk (c, None))) = [])"
proof -
  have cp: "copySnap R clk c2 tr3 =
           (tr3 @ [CopyDBSnapshot (dst c2) (copyMessage clk c2)],
            c2\<lparr>copyId := TargetDBSnapshotIdentifier (copyMessage clk c2)\<rparr>,
            if Status snap = ''creating'' then None else Some (UnexpectedStatus (Status snap)))"
    using assms(4) by (simp add: copySnap_def Let_def)
  from check_prefix [OF assms(1,2,3)] obtain ext where
    p: "dst c2 = dst c" "tr2 = [GetUser (src c), DescribeDBSnapshots (src c) (Some (dbid c)) None]"
       "tr3 = tr2 @ DescribeDBSnapshots (dst c) (Some (dbid c)) None # ext" "list_all isListTags ext"
    by blast
  have np: "filter isPoll tr3 = []"
    using p(2,3) filter_isPoll_listTags [OF p(4)] by simp
  have nc: "filter isCopy tr3 = []"
    using p(2,3) filter_isCopy_listTags [OF p(4)] by simp
  have "main fuel R clk (c, None) = (tr3 @ [CopyDBSnapshot (dst c2) (copyMessage clk c2)], Done 1)"
    if "Status snap \<noteq> ''creating''"
    using main_after_check [OF assms(1,2,3), of fuel clk] cp that by simp
  then show ?thesis using cp np nc by simp
qed

theorem copySnap_status_witness:
  "findAcccountID (ex_world []\<lparr>copyDBSnapshot := \<lambda>h region m. Inr (ex_snap ''x'' 0 ''failed'')\<rparr>)
     ex_config [] = ([GetUser ''east''], Inr ''42'') \<and>
   findLatestSnap (ex_world []\<lparr>copyDBSnapshot := \<lambda>h region m. Inr (ex_snap ''x'' 0 ''failed'')\<rparr>)
     (ex_config\<lparr>awsAcctId := ''42''\<rparr>) [GetUser ''east''] =
     ([GetUser ''east'', DescribeDBSnapshots ''east'' (Some ''db'') None],
      ex_config\<lparr>awsAcctId := ''42'', arn := ''arn:aws:rds:east:42:snapshot:s2''\<rparr>, None) \<and>
   checkSnapCopied (ex_world []\<lparr>copyDBSnapshot := \<lambda>h region m. Inr (ex_snap ''x'' 0 ''failed'')\<rparr>)
     (ex_config\<lparr>awsAcctId := ''42'', arn := ''arn:aws:rds:east:42:snapshot:s2''\<rparr>)
     [GetUser ''east'', DescribeDBSnapshots ''east'' (Some ''db'') None] =
     ([GetUser ''east'', DescribeDBSnapshots ''east'' (Some ''db'') None,
       DescribeDBSnapshots ''west'' (Some ''db'') None,
       ListTagsForResource ''west'' ''arn:aws:rds:west:42:snapshot:c2'',
       ListTagsForResource ''west'' ''arn:aws:rds:west:42:snapshot:u1'',
       ListTagsForResource ''west'' ''arn:aws:rds:west:42:snapshot:c1'',
       ListTagsForResource ''west'' ''arn:aws:rds:west:42:snapshot:c3''], False) \<and>
   Status (ex_snap ''x'' 0 ''failed'') \<noteq> ''creating'' \<and>
   main 5 (ex_world []\<lparr>copyDBSnapshot := \<lambda>h region m. Inr (ex_snap ''x'' 0 ''failed'')\<rparr>)
     ex_clock (ex_config, None) =
     ([GetUser ''east'', DescribeDBSnapshots ''east'' (Some ''db'') None,
       DescribeDBSnapshots ''west'' (Some ''db'') None,
       ListTagsForResource ''west'' ''arn:aws:rds:west:42:snapshot:c2'',
       ListTagsForResource ''west'' ''arn:aws:rds:west:42:snapshot:u1'',
       ListTagsForResource ''west'' ''arn:aws:rds:west:42:snapshot:c1'',
       ListTagsForResource ''west'' ''arn:aws:rds:west:42:snapshot:c3'',
       CopyDBSnapshot ''west''
         (copyMessage ex_clock
            (ex_config\<lparr>awsAcctId := ''42'', arn := ''arn:aws:rds:east:42:snapshot:s2''\<rparr>))],
      Done 1)"
proof -
  let ?R = "ex_world []\<lparr>copyDBSnapshot := \<lambda>h region m. Inr (ex_snap ''x'' 0 ''failed'')\<rparr>"
  let ?c2 = "ex_config\<lparr>awsAcctId := ''42'', arn := ''arn:aws:rds:east:42:snapshot:s2''\<rparr>"
  let ?tr2 = "[GetUser ''east'', DescribeDBSnapshots ''east'' (Some ''db'') None]"
  let ?tr3 = "[GetUser ''east'', DescribeDBSnapshots ''east'' (Some ''db'') None,
       DescribeDBSnapshots ''west'' (Some ''db'') None,
       ListTagsForResource ''west'' ''arn:aws:rds:west:42:snapshot:c2'',
       ListTagsForResource ''west'' ''arn:aws:rds:west:42:snapshot:u1'',
       ListTagsForResource ''west'' ''arn:aws:rds:west:42:snapshot:c1'',
       ListTagsForResource ''west'' ''arn:aws:rds:west:42:snapshot:c3'']"
  have a: "findAcccountID ?R ex_config [] = ([GetUser ''east''], Inr ''42'')"
    by (simp add: findAcccountID_def ex_world_def ex_remote_def ex_config_def)
  have l: "findLatestSnap ?R (ex_config\<lparr>awsAcctId := ''42''\<rparr>) [GetUser ''east''] = (?tr2, ?c2, None)"
    by (simp add: findLatestSnap_def ex_world_def ex_remote_def ex_config_def ex_source_def
        ex_snap_def After_def time_Unix_0_0_def snapshotArn_def)
  have ch: "checkSnapCopied ?R ?c2 ?tr2 = (?tr3, False)"
    by (simp add: checkSnapCopied_def ex_world_def ex_config_def ex_dest_def ex_snap_def
        ex_tags_def snapshotArn_def managedby_def)
  have cp: "copyDBSnapshot ?R ?tr3 (dst ?c2) (copyMessage ex_clock ?c2) = Inr (ex_snap ''x'' 0 ''failed'')"
    by simp
  have st: "Status (ex_snap ''x'' 0 ''failed'') \<noteq> ''creating''"
    by (simp add: ex_snap_def)
  have d: "dst ?c2 = ''west''" by (simp add: ex_config_def)
  from copySnap_status [OF a l ch cp, of 5] st
  have "main 5 ?R ex_clock (ex_config, None) =
      (?tr3 @ [CopyDBSnapshot (dst ?c2) (copyMessage ex_clock ?c2)], Done 1)"
    by blast
  then show ?thesis using a l ch st d by simp
qed

section \<open>The tags of the copy\<close>

text \<open>
  C6 (amended). Every copy request of a run of version 1.2 is the one request built by
  \<^verbatim>\<open>copySnap\<close> from the configuration \<open>c2\<close> that \<^verbatim>\<open>findLatestSnap\<close> returned
  in the same run: it carries the six tags \<open>time\<close>, \<open>timestamp\<close>, \<open>source\<close>,
  \<open>sourceid\<close>, \<open>sourcearn\<close> and \<open>managedby\<close>, and both the \<open>sourcearn\<close> tag
  and the source of the copy are \<^verbatim>\<open>c.arn\<close>. The copy request of version 1.0 carries
  five tags: there is no \<open>sourcearn\<close>.
\<close>

theorem copy_request_tags:
  "(\<forall>q\<in>set (fst (main fuel R clk (c, None))). isCopy q \<longrightarrow>
      (\<exists>tr1 acct tr2 c2.
         findAcccountID R c [] = (tr1, Inr acct) \<and>
         findLatestSnap R (c\<lparr>awsAcctId := acct\<rparr>) tr1 = (tr2, c2, None) \<and>
         q = CopyDBSnapshot (dst c) (copyMessage clk c2))) \<and>
   fst (copySnap R clk c' tr) = tr @ [CopyDBSnapshot (dst c') (copyMessage clk c')] \<and>
   Tags (copyMessage clk c') =
     [\<lparr>Key = ''time'', Value = Format clk (Now clk) ''2006-01-02 15:04:05 -0700''\<rparr>,
      \<lparr>Key = ''timestamp'', Value = Sprintf_d (Unix (Now clk))\<rparr>,
      \<lparr>Key = ''source'', Value = src c'\<rparr>,
      \<lparr>Key = ''sourceid'', Value = dbid c'\<rparr>,
      \<lparr>Key = ''sourcearn'', Value = arn c'\<rparr>,
      \<lparr>Key = ''managedby'', Value = ''rdsbackup''\<rparr>] \<and>
   SourceDBSnapshotIdentifier (copyMessage clk c') = arn c' \<and>
   fst (copySnap_v1_0 R clk c' tr) = tr @ [CopyDBSnapshot (dst c') (copyMessage_v1_0 clk c')] \<and>
   map Key (Tags (copyMessage_v1_0 clk c')) =
     [''time'', ''timestamp'', ''source'', ''sourceid'', ''managedby'']"
proof (intro conjI ballI impI)
  fix q
  assume q: "q \<in> set (fst (main fuel R clk (c, None)))" "isCopy q"
  obtain tr1 ra where a: "findAcccountID R c [] = (tr1, ra)"
    by (cases "findAcccountID R c []") auto
  have t1: "tr1 = [GetUser (src c)]"
    using findAcccountID_trace [of R c "[]"] a by simp
  show "\<exists>tr1 acct tr2 c2.
         findAcccountID R c [] = (tr1, Inr acct) \<and>
         findLatestSnap R (c\<lparr>awsAcctId := acct\<rparr>) tr1 = (tr2, c2, None) \<and>
         q = CopyDBSnapshot (dst c) (copyMessage clk c2)"
  proof (cases ra)
    case (Inl err)
    then have "fst (main fuel R clk (c, None)) = tr1"
      using a by (simp add: main_def)
    then show ?thesis using q t1 by auto
  next
    case (Inr acct)
    obtain tr2 c2 e where l: "findLatestSnap R (c\<lparr>awsAcctId := acct\<rparr>) tr1 = (tr2, c2, e)"
      by (cases "findLatestSnap R (c\<lparr>awsAcctId := acct\<rparr>) tr1") auto
    have t2: "tr2 = [GetUser (src c), DescribeDBSnapshots (src c) (Some (dbid c)) None]"
      using findLatestSnap_trace [of R "c\<lparr>awsAcctId := acct\<rparr>" tr1] l t1 by simp
    show ?thesis
    proof (cases e)
      case (Some err)
      then have "fst (main fuel R clk (c, None)) = tr2"
        using a Inr l by (simp add: main_def)
      then show ?thesis using q t2 by auto
    next
      case None
      obtain tr3 b where ch: "checkSnapCopied R c2 tr2 = (tr3, b)"
        by (cases "checkSnapCopied R c2 tr2") auto
      have a': "findAcccountID R c [] = (tr1, Inr acct)" using a Inr by simp
      have l': "findLatestSnap R (c\<lparr>awsAcctId := acct\<rparr>) tr1 = (tr2, c2, None)" using l None by simp
      have "q \<in> set (filter isCopy (fst (main fuel R clk (c, None))))"
        using q by simp
      then have "q = CopyDBSnapshot (dst c) (copyMessage clk c2)"
        unfolding main_copies [OF a' l' ch] by (simp split: if_splits)
      then show ?thesis using a' l' by blast
    qed
  qed
qed (simp_all add: copySnap_trace copyMessage_def copyMessage_v1_0_def copySnap_v1_0_def Let_def split: sum.splits)

theorem copy_request_tags_witness:
  "CopyDBSnapshot ''west''
     (copyMessage ex_clock (ex_config\<lparr>awsAcctId := ''42'', arn := ''arn:aws:rds:east:42:snapshot:s2''\<rparr>))
     \<in> set (fst (main 0 (ex_world []) ex_clock (ex_config, None))) \<and>
   findLatestSnap (ex_world []) (ex_config\<lparr>awsAcctId := ''42''\<rparr>) [GetUser ''east''] =
     ([GetUser ''east'', DescribeDBSnapshots ''east'' (Some ''db'') None],
      ex_config\<lparr>awsAcctId := ''42'', arn := ''arn:aws:rds:east:42:snapshot:s2''\<rparr>, None) \<and>
   Tags (copyMessage ex_clock (ex_config\<lparr>awsAcctId := ''42'', arn := ''arn:aws:rds:east:42:snapshot:s2''\<rparr>)) =
     [\<lparr>Key = ''time'', Value = ''T''\<rparr>, \<lparr>Key = ''timestamp'', Value = ''100''\<rparr>,
      \<lparr>Key = ''source'', Value = ''east''\<rparr>, \<lparr>Key = ''sourceid'', Value = ''db''\<rparr>,
      \<lparr>Key = ''sourcearn'', Value = ''arn:aws:rds:east:42:snapshot:s2''\<rparr>,
      \<lparr>Key = ''managedby'', Value = ''rdsbackup''\<rparr>]"
proof -
  let ?c2 = "ex_config\<lparr>awsAcctId := ''42'', arn := ''arn:aws:rds:east:42:snapshot:s2''\<rparr>"
  have l: "findLatestSnap (ex_world []) (ex_config\<lparr>awsAcctId := ''42''\<rparr>) [GetUser ''east''] =
     ([GetUser ''east'', DescribeDBSnapshots ''east'' (Some ''db'') None], ?c2, None)"
    by (simp add: findLatestSnap_def ex_world_def ex_remote_def ex_config_def ex_source_def
        ex_snap_def After_def time_Unix_0_0_def snapshotArn_def)
  have d: "Sprintf_d 100 = ''100''"
    by code_simp
  have m: "main 0 (ex_world []) ex_clock (ex_config, None) =
     ([GetUser ''east'', DescribeDBSnapshots ''east'' (Some ''db'') None,
       DescribeDBSnapshots ''west'' (Some ''db'') None,
       ListTagsForResource ''west'' ''arn:aws:rds:west:42:snapshot:c2'',
       ListTagsForResource ''west'' ''arn:aws:rds:west:42:snapshot:u1'',
       ListTagsForResource ''west'' ''arn:aws:rds:west:42:snapshot:c1'',
       ListTagsForResource ''west'' ''arn:aws:rds:west:42:snapshot:c3'',
       CopyDBSnapshot ''west'' (copyMessage ex_clock ?c2)], Running)"
    by (simp add: main_def findAcccountID_def findLatestSnap_def checkSnapCopied_def copySnap_def
        ex_world_def ex_remote_def ex_config_def ex_source_def ex_dest_def ex_tags_def
        ex_snap_def After_def time_Unix_0_0_def snapshotArn_def managedby_def Let_def)
  show ?thesis
    using copy_request_tags [of 0 "ex_world []" ex_clock ex_config ?c2 "[]"] l d m
    by (simp add: ex_clock_def ex_config_def)
qed

text \<open>
  C6 as stated fails on version 1.0 (\<^verbatim>\<open>rdsbackup.go\<close>), whose copy request has no
  \<open>sourcearn\<close> tag.
\<close>

theorem copySnap_v1_0_counterexample:
  "fst (copySnap_v1_0 ex_remote ex_clock ex_config []) =
     [CopyDBSnapshot ''west'' (copyMessage_v1_0 ex_clock ex_config)] \<and>
   Tags (copyMessage_v1_0 ex_clock ex_config) =
     [\<lparr>Key = ''time'', Value = ''T''\<rparr>, \<lparr>Key = ''timestamp'', Value = ''100''\<rparr>,
      \<lparr>Key = ''source'', Value = ''east''\<rparr>, \<lparr>Key = ''sourceid'', Value = ''db''\<rparr>,
      \<lparr>Key = ''managedby'', Value = ''rdsbackup''\<rparr>] \<and>
   ''sourcearn'' \<notin> Key ` set (Tags (copyMessage_v1_0 ex_clock ex_config))"
proof -
  have d: "Sprintf_d 100 = ''100''"
    by code_simp
  show ?thesis
    using d by (simp add: copySnap_v1_0_def copyMessage_v1_0_def ex_remote_def ex_clock_def
        ex_config_def ex_snap_def)
qed

section \<open>The Retention Enforcer\<close>

lemma managedby_iff: "(Key t = ''managedby'' \<and> Value t = ''rdsbackup'') = (t = managedby)"
  by (cases t) (auto simp: managedby_def)

lemma managedLoop_unmanaged: "managedby \<notin> set ts \<Longrightarrow> managedLoop s ts acc = acc"
proof (induction ts)
  case Nil
  then show ?case by simp
next
  case (Cons t ts)
  then show ?case by (cases acc) (auto simp: managedby_iff)
qed

lemma managedLoop_nonpositive: "\<not> 0 < Unix (SnapshotCreateTime s) \<Longrightarrow> managedLoop s ts acc = acc"
proof (induction ts)
  case Nil
  then show ?case by simp
next
  case (Cons t ts)
  then show ?case by (cases acc) simp
qed

lemma managedLoop_managed:
  "distinct (map Key ts) \<Longrightarrow> managedby \<in> set ts \<Longrightarrow> 0 < Unix (SnapshotCreateTime s) \<Longrightarrow>
   managedLoop s ts (snaps, keys) =
     (AList.update (Unix (SnapshotCreateTime s)) (DBSnapshotIdentifier s) snaps,
      keys @ [Unix (SnapshotCreateTime s)])"
proof (induction ts)
  case Nil
  then show ?case by simp
next
  case (Cons t ts)
  show ?case
  proof (cases "t = managedby")
    case True
    have "managedby \<notin> set ts"
      using Cons.prems(1) True by (auto simp: image_iff)
    then show ?thesis
      using True Cons.prems(3) by (simp add: managedby_iff managedLoop_unmanaged)
  next
    case False
    then show ?thesis using Cons by (simp add: managedby_iff)
  qed
qed

text \<open>Whatever the tags, the loop leaves the accumulator or adds the snapshot to it.\<close>

lemma managedLoop_cases:
  "managedLoop s ts (snaps, keys) = (snaps, keys) \<or>
   (managedby \<in> set ts \<and> 0 < Unix (SnapshotCreateTime s) \<and>
    (\<exists>n. managedLoop s ts (snaps, keys) =
       (AList.update (Unix (SnapshotCreateTime s)) (DBSnapshotIdentifier s) snaps,
        keys @ replicate (Suc n) (Unix (SnapshotCreateTime s)))))"
proof (cases "0 < Unix (SnapshotCreateTime s)")
  case False
  then show ?thesis by (simp add: managedLoop_nonpositive)
next
  case True
  have "managedLoop s ts (snaps, keys) = (snaps, keys) \<and> managedby \<notin> set ts \<or>
     (managedby \<in> set ts \<and>
      (\<exists>n. managedLoop s ts (snaps, keys) =
       (AList.update (Unix (SnapshotCreateTime s)) (DBSnapshotIdentifier s) snaps,
        keys @ replicate (Suc n) (Unix (SnapshotCreateTime s)))))"
  proof (induction ts arbitrary: snaps keys)
    case Nil
    then show ?case by simp
  next
    case (Cons t ts)
    let ?u = "Unix (SnapshotCreateTime s)"
    let ?i = "DBSnapshotIdentifier s"
    show ?case
    proof (cases "t = managedby")
      case False
      then show ?thesis using Cons [of snaps keys] by (simp add: managedby_iff)
    next
      case t: True
      have step: "managedLoop s (t # ts) (snaps, keys) =
          managedLoop s ts (AList.update ?u ?i snaps, keys @ [?u])"
        using t True by (simp add: managedby_iff)
      from Cons [of "AList.update ?u ?i snaps" "keys @ [?u]"]
      show ?thesis
      proof (elim disjE conjE exE)
        assume "managedLoop s ts (AList.update ?u ?i snaps, keys @ [?u]) =
            (AList.update ?u ?i snaps, keys @ [?u])"
        then have "managedLoop s (t # ts) (snaps, keys) =
            (AList.update ?u ?i snaps, keys @ replicate (Suc 0) ?u)"
          using step by simp
        then show ?thesis using t by (intro disjI2 conjI exI [of _ 0]) simp_all
      next
        fix n
        assume "managedLoop s ts (AList.update ?u ?i snaps, keys @ [?u]) =
            (AList.update ?u ?i (AList.update ?u ?i snaps), (keys @ [?u]) @ replicate (Suc n) ?u)"
        then have "managedLoop s (t # ts) (snaps, keys) =
            (AList.update ?u ?i snaps, keys @ replicate (Suc (Suc n)) ?u)"
          using step by simp
        then show ?thesis using t by (intro disjI2 conjI exI [of _ "Suc n"]) simp_all
      qed
    qed
  qed
  then show ?thesis using True by blast
qed

lemma update_fresh: "k \<notin> fst ` set al \<Longrightarrow> AList.update k v al = al @ [(k, v)]"
  by (induction al) auto

lemma set_update_subset: "set (AList.update k v al) \<subseteq> insert (k, v) (set al)"
  by (induction al) auto

lemma map_insort_key: "map f (insort_key f x xs) = insort (f x) (map f xs)"
  by (induction xs) auto

lemma map_sort_key: "map f (sort_key f xs) = sort (map f xs)"
  by (induction xs) (auto simp: map_insort_key)

text \<open>\<^verbatim>\<open>keys\<close> is never shorter than \<^verbatim>\<open>snaps\<close>, so \<^verbatim>\<open>keys[i]\<close> is in range.\<close>

lemma length_update_le: "length (AList.update k v al) \<le> Suc (length al)"
  by (induction al) auto

lemma managedLoop_length:
  "length snaps \<le> length keys \<Longrightarrow>
   length (fst (managedLoop s ts (snaps, keys))) \<le> length (snd (managedLoop s ts (snaps, keys)))"
  using managedLoop_cases [of s ts snaps keys] length_update_le [of "Unix (SnapshotCreateTime s)" "DBSnapshotIdentifier s" snaps]
  by auto

lemma collectLoop_length:
  "length (fst acc) \<le> length (snd acc) \<Longrightarrow>
   length (fst (snd (collectLoop R c tr ss acc))) \<le> length (snd (snd (collectLoop R c tr ss acc)))"
proof (induction ss arbitrary: tr acc)
  case Nil
  then show ?case by simp
next
  case (Cons s ss)
  obtain snaps keys where acc: "acc = (snaps, keys)" by (cases acc)
  show ?case
  proof (cases "listTagsForResource R tr (dst c) (snapshotArn (dst c) (awsAcctId c) (DBSnapshotIdentifier s))")
    case (Inl err)
    then show ?thesis using Cons by simp
  next
    case (Inr ts)
    have "length (fst (managedLoop s ts acc)) \<le> length (snd (managedLoop s ts acc))"
      using managedLoop_length [of snaps keys s ts] Cons.prems acc by simp
    then show ?thesis using Cons.IH Inr by simp
  qed
qed

lemma purgeLoop_requests:
  "\<exists>j. fst (purgeLoop R c tr idents) = tr @ map (DeleteDBSnapshot (dst c)) (take j idents)"
proof (induction idents arbitrary: tr)
  case Nil
  then show ?case by simp
next
  case (Cons i idents)
  from Cons [of "tr @ [DeleteDBSnapshot (dst c) i]"] obtain j where
    j: "fst (purgeLoop R c (tr @ [DeleteDBSnapshot (dst c) i]) idents) =
        tr @ map (DeleteDBSnapshot (dst c)) (take (Suc j) (i # idents))"
    by auto
  have "fst (purgeLoop R c tr (i # idents)) = tr @ map (DeleteDBSnapshot (dst c)) (take (Suc 0) (i # idents)) \<or>
      fst (purgeLoop R c tr (i # idents)) = tr @ map (DeleteDBSnapshot (dst c)) (take (Suc j) (i # idents))"
    using j by (simp add: Let_def split: sum.splits)
  then show ?case by blast
qed

lemma purgeLoop_all:
  "\<forall>h i. \<not> isl (deleteDBSnapshot R h (dst c) i) \<Longrightarrow>
   purgeLoop R c tr idents = (tr @ map (DeleteDBSnapshot (dst c)) idents, None)"
proof (induction idents arbitrary: tr)
  case Nil
  then show ?case by simp
next
  case (Cons i idents)
  obtain snap where "deleteDBSnapshot R tr (dst c) i = Inr snap"
    using Cons.prems by (cases "deleteDBSnapshot R tr (dst c) i") (auto simp: isl_def)
  then show ?case using Cons by simp
qed

text \<open>
  With tag reads that answer \<open>tagsOf\<close>, every key of \<^verbatim>\<open>keys\<close> is a key of
  \<^verbatim>\<open>snaps\<close> and every identifier in \<^verbatim>\<open>snaps\<close> is one of a managed snapshot.
\<close>

lemma collectLoop_managed:
  assumes "\<forall>h. listTagsForResource R h (dst c) = tagsOf"
  shows "set keys \<subseteq> fst ` set snaps \<Longrightarrow> \<forall>kv\<in>set snaps. isManaged tagsOf c (snd kv) \<Longrightarrow>
     set (snd (snd (collectLoop R c tr ss (snaps, keys)))) \<subseteq>
       fst ` set (fst (snd (collectLoop R c tr ss (snaps, keys)))) \<and>
     (\<forall>kv\<in>set (fst (snd (collectLoop R c tr ss (snaps, keys)))). isManaged tagsOf c (snd kv))"
proof (induction ss arbitrary: tr snaps keys)
  case Nil
  then show ?case by simp
next
  case (Cons s ss)
  let ?name = "snapshotArn (dst c) (awsAcctId c) (DBSnapshotIdentifier s)"
  let ?u = "Unix (SnapshotCreateTime s)"
  let ?i = "DBSnapshotIdentifier s"
  show ?case
  proof (cases "tagsOf ?name")
    case (Inl err)
    then show ?thesis using assms Cons by simp
  next
    case (Inr ts)
    have step: "collectLoop R c tr (s # ss) (snaps, keys) =
        collectLoop R c (tr @ [ListTagsForResource (dst c) ?name]) ss (managedLoop s ts (snaps, keys))"
      using assms Inr by simp
    from managedLoop_cases [of s ts snaps keys]
    show ?thesis
    proof (elim disjE conjE exE)
      assume "managedLoop s ts (snaps, keys) = (snaps, keys)"
      then show ?thesis using step Cons by simp
    next
      fix n
      assume m: "managedby \<in> set ts"
        and r: "managedLoop s ts (snaps, keys) =
          (AList.update ?u ?i snaps, keys @ replicate (Suc n) ?u)"
      have man: "isManaged tagsOf c ?i"
        using Inr m by (simp add: isManaged_def)
      have k: "set (keys @ replicate (Suc n) ?u) \<subseteq> fst ` set (AList.update ?u ?i snaps)"
        using Cons.prems(1) by (auto simp: dom_update)
      have v: "\<forall>kv\<in>set (AList.update ?u ?i snaps). isManaged tagsOf c (snd kv)"
        using Cons.prems(2) man set_update_subset [of ?u ?i snaps] by auto
      show ?thesis
        unfolding step r by (rule Cons.IH [OF k v])
    qed
  qed
qed

lemma mapIndex_managed:
  assumes "set keys \<subseteq> fst ` set snaps" and "\<forall>kv\<in>set snaps. isManaged tagsOf c (snd kv)"
    and "k \<in> set keys"
  shows "isManaged tagsOf c (mapIndex snaps k)"
proof -
  have "map_of snaps k \<noteq> None"
    using assms(1,3) by (auto simp: map_of_eq_None_iff)
  then obtain v where v: "map_of snaps k = Some v" by auto
  then have "(k, v) \<in> set snaps" by (rule map_of_SomeD)
  then show ?thesis using assms(2) v by (auto simp: mapIndex_def)
qed

text \<open>
  C3. With tag reads that answer \<open>tagsOf\<close>: for an identifier \<open>d\<close> whose tags do
  not hold \<open>managedby = rdsbackup\<close> (the marker is missing, has another value, or the
  tags cannot be read), \<^verbatim>\<open>cleanupSnaps\<close> issues no deletion of \<open>d\<close>, whatever the
  listing, the creation times and the keep-count.
\<close>

theorem cleanupSnaps_unmanaged:
  assumes "\<forall>h. listTagsForResource R h (dst c) = tagsOf"
    and "\<not> isManaged tagsOf c d"
  shows "DeleteDBSnapshot region d \<notin> set (drop (length tr) (fst (cleanupSnaps R c tr)))"
proof (cases "purge c \<le> 0")
  case True
  then show ?thesis by (simp add: cleanupSnaps_def)
next
  case False
  let ?q = "DescribeDBSnapshots (dst c) (Some (dbid c)) None"
  show ?thesis
  proof (cases "describeDBSnapshots R tr (dst c) (Some (dbid c)) None")
    case (Inl err)
    then show ?thesis using False by (simp add: cleanupSnaps_def)
  next
    case (Inr resp)
    let ?lt = "map (\<lambda>s. ListTagsForResource (dst c) (snapshotArn (dst c) (awsAcctId c) (DBSnapshotIdentifier s))) resp"
    obtain tr'' snaps keys where col: "collectLoop R c (tr @ [?q]) resp ([], []) = (tr'', snaps, keys)"
      by (cases "collectLoop R c (tr @ [?q]) resp ([], [])") auto
    have tr'': "tr'' = tr @ ?q # ?lt"
      using collectLoop_trace [of R c "tr @ [?q]" resp "([], [])"] col by simp
    have inv: "set keys \<subseteq> fst ` set snaps \<and> (\<forall>kv\<in>set snaps. isManaged tagsOf c (snd kv))"
      using collectLoop_managed [OF assms(1), of "[]" "[]" "tr @ [?q]" resp] col by simp
    have nolt: "DeleteDBSnapshot region d \<notin> set (?q # ?lt)"
      by auto
    show ?thesis
    proof (cases "int (length snaps) \<le> purge c")
      case True
      then have "fst (cleanupSnaps R c tr) = tr @ ?q # ?lt"
        using False Inr col tr'' by (simp add: cleanupSnaps_def)
      then show ?thesis using nolt by simp
    next
      case gt: False
      let ?ids = "map (mapIndex snaps) (take (nat (int (length snaps) - purge c)) (sort keys))"
      from purgeLoop_requests [of R c tr'' ?ids] obtain j where
        j: "fst (purgeLoop R c tr'' ?ids) = tr'' @ map (DeleteDBSnapshot (dst c)) (take j ?ids)"
        by blast
      have t: "fst (cleanupSnaps R c tr) = tr @ (?q # ?lt) @ map (DeleteDBSnapshot (dst c)) (take j ?ids)"
        using False gt Inr col tr'' j by (simp add: cleanupSnaps_def)
      have "d \<notin> set ?ids"
      proof
        assume "d \<in> set ?ids"
        then obtain k where k: "k \<in> set (take (nat (int (length snaps) - purge c)) (sort keys))"
          "d = mapIndex snaps k"
          by auto
        have "k \<in> set keys"
          using k(1) in_set_takeD [of k _ "sort keys"] by simp
        then have "isManaged tagsOf c d"
          using mapIndex_managed [of keys snaps tagsOf c k] inv k(2) by simp
        then show False using assms(2) by simp
      qed
      then have "d \<notin> set (take j ?ids)"
        using in_set_takeD [of d j ?ids] by blast
      then have "DeleteDBSnapshot region d \<notin> set (map (DeleteDBSnapshot (dst c)) (take j ?ids))"
        by auto
      then show ?thesis using t nolt by simp
    qed
  qed
qed

theorem cleanupSnaps_unmanaged_witness:
  "listTagsForResource (ex_world []) [] (dst (ex_config\<lparr>awsAcctId := ''42''\<rparr>)) = ex_tags [] \<and>
   \<not> isManaged (ex_tags []) (ex_config\<lparr>awsAcctId := ''42''\<rparr>) ''u1'' \<and>
   ex_snap ''u1'' 1 ''available'' \<in> set ex_dest \<and>
   cleanupSnaps (ex_world []) (ex_config\<lparr>awsAcctId := ''42''\<rparr>) [] =
     ([DescribeDBSnapshots ''west'' (Some ''db'') None,
       ListTagsForResource ''west'' ''arn:aws:rds:west:42:snapshot:c2'',
       ListTagsForResource ''west'' ''arn:aws:rds:west:42:snapshot:u1'',
       ListTagsForResource ''west'' ''arn:aws:rds:west:42:snapshot:c1'',
       ListTagsForResource ''west'' ''arn:aws:rds:west:42:snapshot:c3'',
       DeleteDBSnapshot ''west'' ''c1'', DeleteDBSnapshot ''west'' ''c2''], None) \<and>
   DeleteDBSnapshot ''west'' ''u1'' \<notin>
     set (fst (cleanupSnaps (ex_world []) (ex_config\<lparr>awsAcctId := ''42''\<rparr>) []))"
proof -
  let ?c = "ex_config\<lparr>awsAcctId := ''42''\<rparr>"
  have t: "\<forall>h. listTagsForResource (ex_world []) h (dst ?c) = ex_tags []"
    by (simp add: ex_world_def)
  have u: "\<not> isManaged (ex_tags []) ?c ''u1''"
    by (simp add: isManaged_def ex_tags_def snapshotArn_def ex_config_def managedby_def)
  have m: "ex_snap ''u1'' 1 ''available'' \<in> set ex_dest"
    by (simp add: ex_dest_def)
  have r: "cleanupSnaps (ex_world []) ?c [] =
     ([DescribeDBSnapshots ''west'' (Some ''db'') None,
       ListTagsForResource ''west'' ''arn:aws:rds:west:42:snapshot:c2'',
       ListTagsForResource ''west'' ''arn:aws:rds:west:42:snapshot:u1'',
       ListTagsForResource ''west'' ''arn:aws:rds:west:42:snapshot:c1'',
       ListTagsForResource ''west'' ''arn:aws:rds:west:42:snapshot:c3'',
       DeleteDBSnapshot ''west'' ''c1'', DeleteDBSnapshot ''west'' ''c2''], None)"
    by (simp add: cleanupSnaps_def ex_world_def ex_remote_def ex_config_def ex_dest_def
        ex_tags_def ex_snap_def snapshotArn_def managedby_def mapIndex_def Let_def)
  show ?thesis
    using cleanupSnaps_unmanaged [OF t u, of "''west''" "[]"] t u m r by simp
qed

lemma map_of_counted:
  "distinct (map f xs) \<Longrightarrow> x \<in> set xs \<Longrightarrow> map_of (map (\<lambda>s. (f s, g s)) xs) (f x) = Some (g x)"
  by (rule map_of_is_SomeI) (auto simp: comp_def)

lemma collectLoop_counted:
  assumes "\<forall>h. listTagsForResource R h (dst c) = tagsOf"
  shows "\<forall>s\<in>set ss. \<forall>ts. tagsOf (snapshotArn (dst c) (awsAcctId c) (DBSnapshotIdentifier s)) = Inr ts \<longrightarrow>
            distinct (map Key ts) \<Longrightarrow>
         distinct (map fst snaps @ map (\<lambda>s. Unix (SnapshotCreateTime s)) (counted tagsOf c ss)) \<Longrightarrow>
         snd (collectLoop R c tr ss (snaps, keys)) =
           (snaps @ map (\<lambda>s. (Unix (SnapshotCreateTime s), DBSnapshotIdentifier s)) (counted tagsOf c ss),
            keys @ map (\<lambda>s. Unix (SnapshotCreateTime s)) (counted tagsOf c ss))"
proof (induction ss arbitrary: tr snaps keys)
  case Nil
  then show ?case by (simp add: counted_def)
next
  case (Cons s ss)
  let ?name = "snapshotArn (dst c) (awsAcctId c) (DBSnapshotIdentifier s)"
  let ?u = "Unix (SnapshotCreateTime s)"
  let ?i = "DBSnapshotIdentifier s"
  have keys': "\<forall>s\<in>set ss. \<forall>ts. tagsOf (snapshotArn (dst c) (awsAcctId c) (DBSnapshotIdentifier s)) = Inr ts \<longrightarrow>
            distinct (map Key ts)"
    using Cons.prems(1) by simp
  show ?case
  proof (cases "isManaged tagsOf c ?i \<and> 0 < ?u")
    case False
    then have cnt: "counted tagsOf c (s # ss) = counted tagsOf c ss"
      by (simp add: counted_def)
    have "collectLoop R c tr (s # ss) (snaps, keys) =
        collectLoop R c (tr @ [ListTagsForResource (dst c) ?name]) ss (snaps, keys)"
    proof (cases "tagsOf ?name")
      case (Inl err)
      then show ?thesis using assms by simp
    next
      case (Inr ts)
      have "managedLoop s ts (snaps, keys) = (snaps, keys)"
        using False Inr managedLoop_unmanaged [of ts s] managedLoop_nonpositive [of s ts]
        by (auto simp: isManaged_def)
      then show ?thesis using assms Inr by simp
    qed
    then show ?thesis
      using Cons.IH [OF keys', of snaps "tr @ [ListTagsForResource (dst c) ?name]" keys] Cons.prems(2) cnt
      by simp
  next
    case True
    then have cnt: "counted tagsOf c (s # ss) = s # counted tagsOf c ss"
      by (simp add: counted_def)
    from True obtain ts where ts: "tagsOf ?name = Inr ts" "managedby \<in> set ts"
      by (auto simp: isManaged_def split: sum.splits)
    have dk: "distinct (map Key ts)"
      using Cons.prems(1) ts(1) by simp
    have fresh: "?u \<notin> fst ` set snaps"
      using Cons.prems(2) cnt by auto
    have ml: "managedLoop s ts (snaps, keys) = (snaps @ [(?u, ?i)], keys @ [?u])"
      using managedLoop_managed [OF dk ts(2), of s snaps keys] True update_fresh [OF fresh] by simp
    have step: "collectLoop R c tr (s # ss) (snaps, keys) =
        collectLoop R c (tr @ [ListTagsForResource (dst c) ?name]) ss (snaps @ [(?u, ?i)], keys @ [?u])"
      using assms ts(1) ml by simp
    have d': "distinct (map fst (snaps @ [(?u, ?i)]) @
        map (\<lambda>s. Unix (SnapshotCreateTime s)) (counted tagsOf c ss))"
      using Cons.prems(2) cnt by auto
    show ?thesis
      unfolding step using Cons.IH [OF keys' d'] cnt by simp
  qed
qed

text \<open>
  C2 (amended). Given the listing, tag reads that answer \<open>tagsOf\<close> with at most one
  value per key, and deletions that do not fail, let the counted snapshots be the listed
  snapshots that are managed and whose creation time is after the Unix epoch (a managed
  snapshot created at or before the epoch is neither counted nor deleted), with
  pairwise-distinct creation times in seconds, \<open>n\<close> of them. With keep-count \<open>k\<close>,
  \<^verbatim>\<open>cleanupSnaps\<close> issues no request at all when \<open>k \<le> 0\<close> and no deletion when
  \<open>n \<le> k\<close>; otherwise its deletion requests are exactly those of the \<open>n - k\<close>
  oldest counted snapshots, oldest first. When identifiers are unique, none of the
  \<open>k\<close> newest is deleted.
\<close>

theorem cleanupSnaps_retention:
  assumes listing: "describeDBSnapshots R tr (dst c) (Some (dbid c)) None = Inr resp"
    and tags: "\<forall>h. listTagsForResource R h (dst c) = tagsOf"
    and tagkeys: "\<forall>s\<in>set resp. \<forall>ts.
        tagsOf (snapshotArn (dst c) (awsAcctId c) (DBSnapshotIdentifier s)) = Inr ts \<longrightarrow>
        distinct (map Key ts)"
    and dist: "distinct (map (\<lambda>s. Unix (SnapshotCreateTime s)) (counted tagsOf c resp))"
    and del: "\<forall>h i. \<not> isl (deleteDBSnapshot R h (dst c) i)"
  shows "cleanupSnaps R c tr =
     (if purge c \<le> 0 then (tr, None)
      else
        (tr @ DescribeDBSnapshots (dst c) (Some (dbid c)) None #
           map (\<lambda>s. ListTagsForResource (dst c)
                  (snapshotArn (dst c) (awsAcctId c) (DBSnapshotIdentifier s))) resp @
           (if int (length (counted tagsOf c resp)) \<le> purge c then []
            else map (\<lambda>s. DeleteDBSnapshot (dst c) (DBSnapshotIdentifier s))
                   (take (length (counted tagsOf c resp) - nat (purge c))
                      (sort_key (\<lambda>s. Unix (SnapshotCreateTime s)) (counted tagsOf c resp)))),
         None)) \<and>
     (distinct (map DBSnapshotIdentifier (counted tagsOf c resp)) \<longrightarrow>
        (\<forall>s\<in>set (drop (length (counted tagsOf c resp) - nat (purge c))
                   (sort_key (\<lambda>s. Unix (SnapshotCreateTime s)) (counted tagsOf c resp))).
           \<forall>region. DeleteDBSnapshot region (DBSnapshotIdentifier s) \<notin>
             set (drop (length tr) (fst (cleanupSnaps R c tr)))))"
proof -
  let ?q = "DescribeDBSnapshots (dst c) (Some (dbid c)) None"
  let ?lt = "map (\<lambda>s. ListTagsForResource (dst c)
                  (snapshotArn (dst c) (awsAcctId c) (DBSnapshotIdentifier s))) resp"
  let ?u = "\<lambda>s. Unix (SnapshotCreateTime s)"
  let ?M = "counted tagsOf c resp"
  let ?m = "length ?M - nat (purge c)"
  let ?old = "take ?m (sort_key ?u ?M)"
  let ?dels = "map (\<lambda>s. DeleteDBSnapshot (dst c) (DBSnapshotIdentifier s)) ?old"
  let ?snaps = "map (\<lambda>s. (?u s, DBSnapshotIdentifier s)) ?M"
  let ?keys = "map ?u ?M"
  have col: "collectLoop R c (tr @ [?q]) resp ([], []) = (tr @ ?q # ?lt, ?snaps, ?keys)"
    using collectLoop_counted [OF tags tagkeys, of "[]" "tr @ [?q]" "[]"] dist
      collectLoop_trace [of R c "tr @ [?q]" resp "([], [])"]
    by (cases "collectLoop R c (tr @ [?q]) resp ([], [])") simp
  have ids: "map (mapIndex ?snaps) (take ?m (sort ?keys)) = map DBSnapshotIdentifier ?old"
  proof -
    have "take ?m (sort ?keys) = map ?u ?old"
      by (simp add: map_sort_key [symmetric] take_map)
    moreover have "mapIndex ?snaps (?u s) = DBSnapshotIdentifier s" if "s \<in> set ?old" for s
    proof -
      have "s \<in> set ?M" using that in_set_takeD [of s ?m "sort_key ?u ?M"] by simp
      then show ?thesis
        using map_of_counted [OF dist, of s DBSnapshotIdentifier] by (simp add: mapIndex_def)
    qed
    ultimately show ?thesis by simp
  qed
  have run: "cleanupSnaps R c tr =
     (if purge c \<le> 0 then (tr, None)
      else (tr @ ?q # ?lt @ (if int (length ?M) \<le> purge c then [] else ?dels), None))"
  proof (cases "purge c \<le> 0")
    case True
    then show ?thesis by (simp add: cleanupSnaps_def)
  next
    case False
    show ?thesis
    proof (cases "int (length ?M) \<le> purge c")
      case True
      then show ?thesis using False listing col by (simp add: cleanupSnaps_def)
    next
      case gt: False
      have n: "nat (int (length ?M) - purge c) = ?m"
        using False gt by simp
      have "cleanupSnaps R c tr =
          purgeLoop R c (tr @ ?q # ?lt) (map (mapIndex ?snaps) (take ?m (sort ?keys)))"
        using False gt listing col n by (simp add: cleanupSnaps_def)
      then show ?thesis
        using False gt ids purgeLoop_all [OF del] by (simp add: comp_def)
    qed
  qed
  have kept: "\<forall>s\<in>set (drop ?m (sort_key ?u ?M)). \<forall>region.
      DeleteDBSnapshot region (DBSnapshotIdentifier s) \<notin> set (drop (length tr) (fst (cleanupSnaps R c tr)))"
    if di: "distinct (map DBSnapshotIdentifier ?M)"
  proof (intro ballI allI notI)
    fix s region
    assume s: "s \<in> set (drop ?m (sort_key ?u ?M))"
      and d: "DeleteDBSnapshot region (DBSnapshotIdentifier s) \<in> set (drop (length tr) (fst (cleanupSnaps R c tr)))"
    have "DeleteDBSnapshot region (DBSnapshotIdentifier s) \<in> set ?dels"
      using d unfolding run by (auto split: if_splits)
    then obtain s' where s': "s' \<in> set ?old" "DBSnapshotIdentifier s' = DBSnapshotIdentifier s"
      by auto
    have sM: "s \<in> set ?M" using s in_set_dropD [of s ?m "sort_key ?u ?M"] by simp
    have s'M: "s' \<in> set ?M" using s'(1) in_set_takeD [of s' ?m "sort_key ?u ?M"] by simp
    have "inj_on DBSnapshotIdentifier (set ?M)"
      using di by (simp add: distinct_map)
    then have eq: "s' = s" using s'(2) sM s'M by (auto dest: inj_onD)
    have "distinct (sort_key ?u ?M)"
      using dist by (simp add: distinct_map)
    then have "set ?old \<inter> set (drop ?m (sort_key ?u ?M)) = {}"
      by (rule set_take_disj_set_drop_if_distinct) simp
    then show False using s s'(1) eq by auto
  qed
  show ?thesis using run kept by simp
qed

theorem cleanupSnaps_retention_witness:
  "describeDBSnapshots (ex_world []) [] (dst (ex_config\<lparr>awsAcctId := ''42''\<rparr>))
     (Some (dbid (ex_config\<lparr>awsAcctId := ''42''\<rparr>))) None = Inr ex_dest \<and>
   counted (ex_tags []) (ex_config\<lparr>awsAcctId := ''42''\<rparr>) ex_dest =
     [ex_snap ''c2'' 15 ''available'', ex_snap ''c1'' 5 ''available'', ex_snap ''c3'' 25 ''available''] \<and>
   purge (ex_config\<lparr>awsAcctId := ''42''\<rparr>) = 1 \<and>
   cleanupSnaps (ex_world []) (ex_config\<lparr>awsAcctId := ''42''\<rparr>) [] =
     ([DescribeDBSnapshots ''west'' (Some ''db'') None,
       ListTagsForResource ''west'' ''arn:aws:rds:west:42:snapshot:c2'',
       ListTagsForResource ''west'' ''arn:aws:rds:west:42:snapshot:u1'',
       ListTagsForResource ''west'' ''arn:aws:rds:west:42:snapshot:c1'',
       ListTagsForResource ''west'' ''arn:aws:rds:west:42:snapshot:c3'',
       DeleteDBSnapshot ''west'' ''c1'', DeleteDBSnapshot ''west'' ''c2''], None)"
proof -
  let ?c = "ex_config\<lparr>awsAcctId := ''42''\<rparr>"
  have l: "describeDBSnapshots (ex_world []) [] (dst ?c) (Some (dbid ?c)) None = Inr ex_dest"
    by (simp add: ex_world_def ex_config_def)
  have t: "\<forall>h. listTagsForResource (ex_world []) h (dst ?c) = ex_tags []"
    by (simp add: ex_world_def)
  have k: "\<forall>s\<in>set ex_dest. \<forall>ts.
      ex_tags [] (snapshotArn (dst ?c) (awsAcctId ?c) (DBSnapshotIdentifier s)) = Inr ts \<longrightarrow>
      distinct (map Key ts)"
    by (auto simp: ex_dest_def ex_snap_def ex_tags_def snapshotArn_def ex_config_def managedby_def)
  have m: "counted (ex_tags []) ?c ex_dest =
     [ex_snap ''c2'' 15 ''available'', ex_snap ''c1'' 5 ''available'', ex_snap ''c3'' 25 ''available'']"
    by (simp add: counted_def isManaged_def ex_dest_def ex_snap_def ex_tags_def snapshotArn_def
        ex_config_def managedby_def)
  have d: "distinct (map (\<lambda>s. Unix (SnapshotCreateTime s)) (counted (ex_tags []) ?c ex_dest))"
    unfolding m by (simp add: ex_snap_def)
  have f: "\<forall>h i. \<not> isl (deleteDBSnapshot (ex_world []) h (dst ?c) i)"
    by (simp add: ex_world_def ex_remote_def)
  have p: "purge ?c = 1" by (simp add: ex_config_def)
  show ?thesis
    using cleanupSnaps_retention [OF l t k d f, THEN conjunct1] l m p
    by (simp add: ex_dest_def ex_snap_def snapshotArn_def ex_config_def)
qed

text \<open>
  C2 as stated fails on two managed snapshots with distinct creation times when one of
  them has Go's zero time (a snapshot without a creation time yet), whose Unix time is
  negative: with keep-count 1 the claim has the older one deleted, and
  \<^verbatim>\<open>cleanupSnaps\<close> counts one snapshot and deletes nothing.
\<close>

theorem cleanupSnaps_zero_time_counterexample:
  "isManaged (\<lambda>name. Inr [managedby]) ex_config ''a'' \<and>
   isManaged (\<lambda>name. Inr [managedby]) ex_config ''b'' \<and>
   purge ex_config = 1 \<and>
   cleanupSnaps
     (ex_remote
        \<lparr>describeDBSnapshots := \<lambda>h region inst ident.
           Inr [ex_snap ''a'' (- 62135596800) ''creating'', ex_snap ''b'' 10 ''available''],
         listTagsForResource := \<lambda>h region name. Inr [managedby]\<rparr>)
     ex_config [] =
     ([DescribeDBSnapshots ''west'' (Some ''db'') None,
       ListTagsForResource ''west'' ''arn:aws:rds:west::snapshot:a'',
       ListTagsForResource ''west'' ''arn:aws:rds:west::snapshot:b''], None)"
  by (simp add: cleanupSnaps_def isManaged_def ex_remote_def ex_config_def ex_snap_def
      snapshotArn_def managedby_def Let_def)

section \<open>Failures of remote calls\<close>

lemma clean_append: "clean R E h (xs @ ys) = (clean R E h xs \<and> clean R E (h @ xs) ys)"
  by (induction xs arbitrary: h) auto

lemma clean_butlast: "clean R E h xs \<Longrightarrow> clean R E h (butlast xs)"
  by (induction xs arbitrary: h) auto

lemma clean_extend:
  "clean R E h xs \<Longrightarrow> clean R E (h @ xs) (butlast ys) \<Longrightarrow> clean R E h (butlast (xs @ ys))"
  by (cases "ys = []") (simp_all add: clean_butlast butlast_append clean_append)

lemma clean_listTags:
  "\<forall>h q. isListTags q \<longrightarrow> E h q \<Longrightarrow> list_all isListTags ext \<Longrightarrow> clean R E h ext"
  by (induction ext arbitrary: h) auto

lemma clean_failed:
  assumes "clean R E [] (h @ q # rest)" and "failed R h q"
  shows "E h q"
  using assms by (simp add: clean_append)

lemma findAcccountID_ok: "findAcccountID R c tr = (tr', Inr acct) \<Longrightarrow> \<not> failed R tr (GetUser (src c))"
  by (cases "getUser R tr (src c)") (simp_all add: findAcccountID_def Let_def split: if_splits)

lemma findLatestSnap_ok:
  "findLatestSnap R c tr = (tr', c', None) \<Longrightarrow>
   \<not> failed R tr (DescribeDBSnapshots (src c) (Some (dbid c)) None)"
  by (cases "describeDBSnapshots R tr (src c) (Some (dbid c)) None")
    (simp_all add: findLatestSnap_def Let_def)

lemma copySnap_ok:
  "copySnap R clk c tr = (tr', c', None) \<Longrightarrow>
   \<not> failed R tr (CopyDBSnapshot (dst c) (copyMessage clk c))"
  by (cases "copyDBSnapshot R tr (dst c) (copyMessage clk c)")
    (simp_all add: copySnap_def Let_def)

lemma waitForCopy_clean:
  "\<exists>ext. fst (waitForCopy fuel R c tr) = tr @ ext \<and> clean R E tr (butlast ext) \<and>
     ((\<forall>e. snd (waitForCopy fuel R c tr) \<noteq> Done (Some e)) \<longrightarrow> clean R E tr ext)"
proof (induction fuel arbitrary: tr)
  case 0
  have "fst (waitForCopy 0 R c tr) = tr @ [] \<and> clean R E tr (butlast []) \<and>
     ((\<forall>e. snd (waitForCopy 0 R c tr) \<noteq> Done (Some e)) \<longrightarrow> clean R E tr [])"
    by simp
  then show ?case by blast
next
  case (Suc fuel)
  let ?q = "DescribeDBSnapshots (dst c) None (Some (copyId c))"
  let ?w = "waitForCopy (Suc fuel) R c tr"
  show ?case
  proof (cases "describeDBSnapshots R tr (dst c) None (Some (copyId c))")
    case (Inl err)
    then have "fst ?w = tr @ [?q] \<and> clean R E tr (butlast [?q]) \<and>
       ((\<forall>e. snd ?w \<noteq> Done (Some e)) \<longrightarrow> clean R E tr [?q])"
      by simp
    then show ?thesis by blast
  next
    case (Inr snaps)
    then have nf: "\<not> failed R tr ?q" by simp
    show ?thesis
    proof (cases "length snaps \<noteq> 1 \<or> Status (snaps ! 0) \<noteq> ''creating''")
      case True
      then have "fst ?w = tr @ [?q] \<and> clean R E tr (butlast [?q]) \<and>
         ((\<forall>e. snd ?w \<noteq> Done (Some e)) \<longrightarrow> clean R E tr [?q])"
        using Inr nf by (auto simp: Let_def)
      then show ?thesis by blast
    next
      case False
      then have step: "?w = waitForCopy fuel R c (tr @ [?q])"
        using Inr by (simp add: Let_def)
      from Suc [of "tr @ [?q]"] obtain ext where
        ext: "fst (waitForCopy fuel R c (tr @ [?q])) = (tr @ [?q]) @ ext"
          "clean R E (tr @ [?q]) (butlast ext)"
          "(\<forall>e. snd (waitForCopy fuel R c (tr @ [?q])) \<noteq> Done (Some e)) \<longrightarrow> clean R E (tr @ [?q]) ext"
        by blast
      have "clean R E tr [?q]" using nf by simp
      then have "clean R E tr (butlast ([?q] @ ext))"
        using ext(2) by (rule clean_extend)
      then have "fst ?w = tr @ (?q # ext) \<and> clean R E tr (butlast (?q # ext)) \<and>
         ((\<forall>e. snd ?w \<noteq> Done (Some e)) \<longrightarrow> clean R E tr (?q # ext))"
        unfolding step using ext(1,3) nf by simp
      then show ?thesis by blast
    qed
  qed
qed

lemma purgeLoop_clean:
  "purgeLoop R c tr idents = (tr', e) \<Longrightarrow>
   \<exists>ext. tr' = tr @ ext \<and> clean R E tr (butlast ext) \<and> (e = None \<longrightarrow> clean R E tr ext)"
proof (induction idents arbitrary: tr)
  case Nil
  then have "tr' = tr @ [] \<and> clean R E tr (butlast []) \<and> (e = None \<longrightarrow> clean R E tr [])"
    by simp
  then show ?case by (rule exI)
next
  case (Cons i idents)
  let ?q = "DeleteDBSnapshot (dst c) i"
  show ?case
  proof (cases "deleteDBSnapshot R tr (dst c) i")
    case (Inl err)
    then have "tr' = tr @ [?q]" and "e = Some err"
      using Cons.prems by simp_all
    then have "tr' = tr @ [?q] \<and> clean R E tr (butlast [?q]) \<and> (e = None \<longrightarrow> clean R E tr [?q])"
      by simp
    then show ?thesis by (rule exI)
  next
    case (Inr snap)
    then have nf: "\<not> failed R tr ?q" by simp
    have step: "purgeLoop R c (tr @ [?q]) idents = (tr', e)"
      using Inr Cons.prems by simp
    from Cons.IH [OF step] obtain ext where
      ext: "tr' = (tr @ [?q]) @ ext" "clean R E (tr @ [?q]) (butlast ext)"
        "e = None \<longrightarrow> clean R E (tr @ [?q]) ext"
      by (elim exE conjE)
    have "clean R E tr [?q]" using nf by simp
    then have b: "clean R E tr (butlast ([?q] @ ext))"
      using ext(2) by (rule clean_extend)
    have w: "e = None \<longrightarrow> clean R E tr (?q # ext)"
      using ext(3) nf by simp
    have "tr' = tr @ (?q # ext) \<and> clean R E tr (butlast (?q # ext)) \<and>
       (e = None \<longrightarrow> clean R E tr (?q # ext))"
      using ext(1) b w by simp
    then show ?thesis by (rule exI)
  qed
qed

lemma cleanupSnaps_clean:
  assumes E: "\<forall>h q. isListTags q \<longrightarrow> E h q"
    and run: "cleanupSnaps R c tr = (tr', e)"
  shows "\<exists>ext. tr' = tr @ ext \<and> clean R E tr (butlast ext) \<and> (e = None \<longrightarrow> clean R E tr ext)"
proof (cases "purge c \<le> 0")
  case True
  then have "tr' = tr @ [] \<and> clean R E tr (butlast []) \<and> (e = None \<longrightarrow> clean R E tr [])"
    using run by (simp add: cleanupSnaps_def)
  then show ?thesis by (rule exI)
next
  case False
  let ?q = "DescribeDBSnapshots (dst c) (Some (dbid c)) None"
  show ?thesis
  proof (cases "describeDBSnapshots R tr (dst c) (Some (dbid c)) None")
    case (Inl err)
    then have "tr' = tr @ [?q]" and "e = Some err"
      using False run by (simp_all add: cleanupSnaps_def)
    then have "tr' = tr @ [?q] \<and> clean R E tr (butlast [?q]) \<and> (e = None \<longrightarrow> clean R E tr [?q])"
      by simp
    then show ?thesis by (rule exI)
  next
    case (Inr resp)
    then have nf: "\<not> failed R tr ?q" by simp
    let ?lt = "map (\<lambda>s. ListTagsForResource (dst c) (snapshotArn (dst c) (awsAcctId c) (DBSnapshotIdentifier s))) resp"
    obtain tr'' snaps keys where col: "collectLoop R c (tr @ [?q]) resp ([], []) = (tr'', snaps, keys)"
      by (cases "collectLoop R c (tr @ [?q]) resp ([], [])") auto
    have tr'': "tr'' = tr @ ?q # ?lt"
      using collectLoop_trace [of R c "tr @ [?q]" resp "([], [])"] col by simp
    have "list_all isListTags ?lt" by (simp add: list_all_iff)
    then have "clean R E (tr @ [?q]) ?lt" by (rule clean_listTags [OF E])
    then have cl: "clean R E tr (?q # ?lt)" using nf by simp
    show ?thesis
    proof (cases "int (length snaps) \<le> purge c")
      case True
      then have "tr' = tr @ (?q # ?lt)"
        using False Inr col tr'' run by (simp add: cleanupSnaps_def)
      then have "tr' = tr @ (?q # ?lt) \<and> clean R E tr (butlast (?q # ?lt)) \<and>
         (e = None \<longrightarrow> clean R E tr (?q # ?lt))"
        using cl clean_butlast [OF cl] by simp
      then show ?thesis by (rule exI)
    next
      case gt: False
      let ?ids = "map (mapIndex snaps) (take (nat (int (length snaps) - purge c)) (sort keys))"
      have p: "purgeLoop R c (tr @ ?q # ?lt) ?ids = (tr', e)"
        using False gt Inr col tr'' run by (simp add: cleanupSnaps_def)
      from purgeLoop_clean [OF p, of E] obtain ext where
        ext: "tr' = (tr @ ?q # ?lt) @ ext" "clean R E (tr @ ?q # ?lt) (butlast ext)"
          "e = None \<longrightarrow> clean R E (tr @ ?q # ?lt) ext"
        by (elim exE conjE)
      have b: "clean R E tr (butlast ((?q # ?lt) @ ext))"
        using cl ext(2) by (intro clean_extend) simp_all
      have w: "e = None \<longrightarrow> clean R E tr ((?q # ?lt) @ ext)"
        using ext(3) cl by (simp only: clean_append) simp
      have "tr' = tr @ ((?q # ?lt) @ ext) \<and> clean R E tr (butlast ((?q # ?lt) @ ext)) \<and>
         (e = None \<longrightarrow> clean R E tr ((?q # ?lt) @ ext))"
        using ext(1) b w by simp
      then show ?thesis by (rule exI)
    qed
  qed
qed

text \<open>
  In a run, every request but the last was answered without a failure or with a
  tolerated one, and so was the last unless the run exits with status 1.
\<close>

lemma tolerated_listTags: "\<forall>h q. isListTags q \<longrightarrow> tolerated h q"
  by (simp add: tolerated_def)

lemma main_clean:
  assumes run: "main fuel R clk (c, None) = (tr, out)"
  shows "clean R tolerated [] (butlast tr) \<and> (out \<noteq> Done 1 \<longrightarrow> clean R tolerated [] tr)"
proof -
  let ?G = "GetUser (src c)"
  let ?D1 = "DescribeDBSnapshots (src c) (Some (dbid c)) None"
  let ?D2 = "DescribeDBSnapshots (dst c) (Some (dbid c)) None"
  obtain tr1 ra where a: "findAcccountID R c [] = (tr1, ra)"
    by (cases "findAcccountID R c []") auto
  have t1: "tr1 = [?G]"
    using findAcccountID_trace [of R c "[]"] a by simp
  show ?thesis
  proof (cases ra)
    case (Inl err)
    then have "tr = [?G]" and "out = Done 1"
      using a t1 run by (simp_all add: main_def)
    then show ?thesis by simp
  next
    case (Inr acct)
    have a': "findAcccountID R c [] = (tr1, Inr acct)" using a Inr by simp
    have g: "\<not> failed R [] ?G"
      using findAcccountID_ok [OF a'] .
    obtain tr2 c2 e where l: "findLatestSnap R (c\<lparr>awsAcctId := acct\<rparr>) tr1 = (tr2, c2, e)"
      by (cases "findLatestSnap R (c\<lparr>awsAcctId := acct\<rparr>) tr1") auto
    have t2: "tr2 = [?G, ?D1]"
      using findLatestSnap_trace [of R "c\<lparr>awsAcctId := acct\<rparr>" tr1] l t1 by simp
    show ?thesis
    proof (cases e)
      case (Some err)
      then have "tr = [?G, ?D1]" and "out = Done 1"
        using a' l t2 run by (simp_all add: main_def)
      then show ?thesis using g by simp
    next
      case None
      have l': "findLatestSnap R (c\<lparr>awsAcctId := acct\<rparr>) tr1 = (tr2, c2, None)"
        using l None by simp
      have d1: "\<not> failed R [?G] ?D1"
        using findLatestSnap_ok [OF l'] t1 by simp
      obtain tr3 b where ch: "checkSnapCopied R c2 tr2 = (tr3, b)"
        by (cases "checkSnapCopied R c2 tr2") auto
      from check_prefix [OF a' l' ch] obtain ext where
        p: "dst c2 = dst c" "tr3 = tr2 @ ?D2 # ext" "list_all isListTags ext"
        by blast
      have "clean R tolerated ([?G, ?D1] @ [?D2]) ext"
        using p(3) by (rule clean_listTags [OF tolerated_listTags])
      then have c3: "clean R tolerated [] tr3"
        unfolding p(2) t2 using g d1 by (simp add: tolerated_def)
      note m = main_after_check [OF a' l' ch, of fuel clk]
      show ?thesis
      proof (cases b)
        case True
        then have "tr = tr3" and "out = Done 0"
          using m run by simp_all
        then show ?thesis using c3 clean_butlast [OF c3] by simp
      next
        case False
        obtain tr4 c3' e4 where cp: "copySnap R clk c2 tr3 = (tr4, c3', e4)"
          by (cases "copySnap R clk c2 tr3") auto
        have t4: "tr4 = tr3 @ [CopyDBSnapshot (dst c2) (copyMessage clk c2)]"
          using copySnap_trace [of R clk c2 tr3] cp by simp
        show ?thesis
        proof (cases e4)
          case (Some err)
          then have "tr = tr4" and "out = Done 1"
            using m run False cp by simp_all
          then show ?thesis using c3 t4 by simp
        next
          case None
          have "\<not> failed R tr3 (CopyDBSnapshot (dst c2) (copyMessage clk c2))"
            using copySnap_ok [of R clk c2 tr3 tr4 c3'] cp None by simp
          then have c4: "clean R tolerated [] tr4"
            unfolding t4 using c3 by (simp add: clean_append)
          obtain tr5 r where w: "waitForCopy fuel R c3' tr4 = (tr5, r)"
            by (cases "waitForCopy fuel R c3' tr4") auto
          from waitForCopy_clean [of fuel R c3' tr4 tolerated] obtain ext5 where
            e5: "tr5 = tr4 @ ext5" "clean R tolerated tr4 (butlast ext5)"
              "(\<forall>e. r \<noteq> Done (Some e)) \<longrightarrow> clean R tolerated tr4 ext5"
            unfolding w by (elim exE conjE) simp
          have b5: "clean R tolerated [] (butlast tr5)"
            unfolding e5(1) using c4 e5(2) by (intro clean_extend) simp_all
          have c5: "clean R tolerated [] tr5" if "\<forall>e. r \<noteq> Done (Some e)"
            unfolding e5(1) using c4 e5(3) that by (simp add: clean_append)
          show ?thesis
          proof (cases r)
            case Running
            then have "tr = tr5" and "out = Running"
              using m run False cp None w by simp_all
            then show ?thesis using b5 c5 Running by simp
          next
            case (Done res)
            show ?thesis
            proof (cases res)
              case (Some err)
              then have "tr = tr5" and "out = Done 1"
                using m run False cp None w Done by simp_all
              then show ?thesis using b5 by simp
            next
              case rn: None
              have c5': "clean R tolerated [] tr5"
                using c5 Done rn by simp
              obtain tr6 e6 where cl: "cleanupSnaps R c3' tr5 = (tr6, e6)"
                by (cases "cleanupSnaps R c3' tr5") auto
              from cleanupSnaps_clean [OF tolerated_listTags cl] obtain ext6 where
                e6: "tr6 = tr5 @ ext6" "clean R tolerated tr5 (butlast ext6)"
                  "e6 = None \<longrightarrow> clean R tolerated tr5 ext6"
                by (elim exE conjE)
              have b6: "clean R tolerated [] (butlast tr6)"
                unfolding e6(1) using c5' e6(2) by (intro clean_extend) simp_all
              have c6: "clean R tolerated [] tr6" if "e6 = None"
                unfolding e6(1) using c5' e6(3) that by (simp add: clean_append)
              have "tr = tr6" and "out = (if e6 = None then Done 0 else Done 1)"
                using m run False cp None w Done rn cl by (auto split: option.splits)
              then show ?thesis using b6 c6 by simp
            qed
          qed
        qed
      qed
    qed
  qed
qed

text \<open>
  C5 (amended). In a run, a request that fails and is neither a tag read nor the third
  request of the run (the destination listing of the idempotency check) is the last
  request issued, and the run exits with status 1. A tag read that fails, in the
  idempotency scan or in the retention scan, skips its snapshot: the scan goes on with
  the next one. A failure of the idempotency check's listing makes
  \<^verbatim>\<open>checkSnapCopied\<close> answer false, after which the run goes on to the copy.
\<close>

theorem remote_failure_fatal:
  assumes "main fuel R clk (c, None) = (tr, out)"
    and "tr = h @ q # rest"
    and "failed R h q"
    and "\<not> isListTags q"
    and "length h \<noteq> 2"
  shows "rest = [] \<and> out = Done 1 \<and>
    (listTagsForResource R tr' (dst c')
        (snapshotArn (dst c') (awsAcctId c') (DBSnapshotIdentifier s)) = Inl e \<longrightarrow>
       checkLoop R c' tr' (s # ss) =
         checkLoop R c' (tr' @ [ListTagsForResource (dst c')
           (snapshotArn (dst c') (awsAcctId c') (DBSnapshotIdentifier s))]) ss \<and>
       collectLoop R c' tr' (s # ss) acc =
         collectLoop R c' (tr' @ [ListTagsForResource (dst c')
           (snapshotArn (dst c') (awsAcctId c') (DBSnapshotIdentifier s))]) ss acc) \<and>
    (describeDBSnapshots R tr' (dst c') (Some (dbid c')) None = Inl e \<longrightarrow>
       checkSnapCopied R c' tr' =
         (tr' @ [DescribeDBSnapshots (dst c') (Some (dbid c')) None], False))"
proof (intro conjI impI)
  from main_clean [OF assms(1)]
  have cb: "clean R tolerated [] (butlast tr)"
    and cw: "out \<noteq> Done 1 \<longrightarrow> clean R tolerated [] tr"
    by simp_all
  have nt: "\<not> tolerated h q"
    using assms(4,5) by (simp add: tolerated_def)
  show "rest = []"
  proof (rule ccontr)
    assume "rest \<noteq> []"
    then have "butlast tr = h @ q # butlast rest"
      using assms(2) by (simp add: butlast_append)
    then have "tolerated h q"
      using cb assms(3) clean_failed [of R tolerated h q "butlast rest"] by simp
    then show False using nt by simp
  qed
  show "out = Done 1"
  proof (rule ccontr)
    assume "out \<noteq> Done 1"
    then have "clean R tolerated [] (h @ q # rest)"
      using cw assms(2) by simp
    then have "tolerated h q"
      using assms(3) by (rule clean_failed)
    then show False using nt by simp
  qed
qed (simp_all add: checkSnapCopied_def)

theorem remote_failure_fatal_witness:
  "failed (ex_world []\<lparr>copyDBSnapshot := \<lambda>h region m. Inl (AWSError ''denied'')\<rparr>)
     [GetUser ''east'', DescribeDBSnapshots ''east'' (Some ''db'') None,
       DescribeDBSnapshots ''west'' (Some ''db'') None,
       ListTagsForResource ''west'' ''arn:aws:rds:west:42:snapshot:c2'',
       ListTagsForResource ''west'' ''arn:aws:rds:west:42:snapshot:u1'',
       ListTagsForResource ''west'' ''arn:aws:rds:west:42:snapshot:c1'',
       ListTagsForResource ''west'' ''arn:aws:rds:west:42:snapshot:c3'']
     (CopyDBSnapshot ''west''
         (copyMessage ex_clock
            (ex_config\<lparr>awsAcctId := ''42'', arn := ''arn:aws:rds:east:42:snapshot:s2''\<rparr>))) \<and>
   main 5 (ex_world []\<lparr>copyDBSnapshot := \<lambda>h region m. Inl (AWSError ''denied'')\<rparr>)
     ex_clock (ex_config, None) =
     ([GetUser ''east'', DescribeDBSnapshots ''east'' (Some ''db'') None,
       DescribeDBSnapshots ''west'' (Some ''db'') None,
       ListTagsForResource ''west'' ''arn:aws:rds:west:42:snapshot:c2'',
       ListTagsForResource ''west'' ''arn:aws:rds:west:42:snapshot:u1'',
       ListTagsForResource ''west'' ''arn:aws:rds:west:42:snapshot:c1'',
       ListTagsForResource ''west'' ''arn:aws:rds:west:42:snapshot:c3''] @
      [CopyDBSnapshot ''west''
         (copyMessage ex_clock
            (ex_config\<lparr>awsAcctId := ''42'', arn := ''arn:aws:rds:east:42:snapshot:s2''\<rparr>))],
      Done 1)"
proof -
  let ?R = "ex_world []\<lparr>copyDBSnapshot := \<lambda>h region m. Inl (AWSError ''denied'')\<rparr>"
  let ?h = "[GetUser ''east'', DescribeDBSnapshots ''east'' (Some ''db'') None,
       DescribeDBSnapshots ''west'' (Some ''db'') None,
       ListTagsForResource ''west'' ''arn:aws:rds:west:42:snapshot:c2'',
       ListTagsForResource ''west'' ''arn:aws:rds:west:42:snapshot:u1'',
       ListTagsForResource ''west'' ''arn:aws:rds:west:42:snapshot:c1'',
       ListTagsForResource ''west'' ''arn:aws:rds:west:42:snapshot:c3'']"
  let ?q = "CopyDBSnapshot ''west''
         (copyMessage ex_clock
            (ex_config\<lparr>awsAcctId := ''42'', arn := ''arn:aws:rds:east:42:snapshot:s2''\<rparr>))"
  have m: "main 5 ?R ex_clock (ex_config, None) = (?h @ ?q # [], Done 1)"
    by (simp add: main_def findAcccountID_def findLatestSnap_def checkSnapCopied_def copySnap_def
        ex_world_def ex_remote_def ex_config_def ex_source_def ex_dest_def ex_tags_def
        ex_snap_def After_def time_Unix_0_0_def snapshotArn_def managedby_def Let_def)
  have f: "failed ?R ?h ?q" by simp
  have n: "\<not> isListTags ?q" by simp
  have l: "length ?h \<noteq> 2" by simp
  show ?thesis
    using remote_failure_fatal [OF m refl f n l, THEN conjunct2, THEN conjunct1] m f by simp
qed

text \<open>
  C5 as stated fails when the destination listing of the idempotency check fails: the
  error is not returned, the run copies, waits, and exits with status 0.
\<close>

theorem check_listing_failure_counterexample:
  "failed
     (ex_world []\<lparr>describeDBSnapshots := \<lambda>h region inst ident.
        if length h = 2 then Inl (AWSError ''throttled'')
        else describeDBSnapshots (ex_world []) h region inst ident\<rparr>)
     [GetUser ''east'', DescribeDBSnapshots ''east'' (Some ''db'') None]
     (DescribeDBSnapshots ''west'' (Some ''db'') None) \<and>
   main 5
     (ex_world []\<lparr>describeDBSnapshots := \<lambda>h region inst ident.
        if length h = 2 then Inl (AWSError ''throttled'')
        else describeDBSnapshots (ex_world []) h region inst ident\<rparr>)
     ex_clock (ex_config\<lparr>purge := 0\<rparr>, None) =
     ([GetUser ''east'', DescribeDBSnapshots ''east'' (Some ''db'') None,
       DescribeDBSnapshots ''west'' (Some ''db'') None,
       CopyDBSnapshot ''west''
         (copyMessage ex_clock
            (ex_config\<lparr>purge := 0, awsAcctId := ''42'', arn := ''arn:aws:rds:east:42:snapshot:s2''\<rparr>)),
       DescribeDBSnapshots ''west'' None (Some ''db-T''),
       DescribeDBSnapshots ''west'' None (Some ''db-T''),
       DescribeDBSnapshots ''west'' None (Some ''db-T'')],
      Done 0)"
  by (simp add: main_def findAcccountID_def findLatestSnap_def checkSnapCopied_def copySnap_def
      copyMessage_def cleanupSnaps_def numeral_eq_Suc
      ex_world_def ex_remote_def ex_config_def ex_source_def ex_clock_def
      ex_snap_def After_def time_Unix_0_0_def snapshotArn_def Let_def)

end
